theory Spec2Isabelle
  imports Main "HOL-Library.Word" "HOL-Library.Signed_Division"
begin

section \<open>Data model of gtktetris.c\<close>

text \<open>
  A C \<^verbatim>\<open>int\<close> is a 32-bit two's-complement word: \<open>+\<close>, \<open>-\<close> and \<open>*\<close> wrap,
  comparisons read the word as signed (\<open>sint\<close>).  Signed overflow is undefined in ISO C;
  the model takes the wrap-around that the usual builds of this program perform.
\<close>

type_synonym cint = "32 word"

definition INT_MAX :: cint where
  "INT_MAX = 2147483647"

definition BOARD_WIDTH :: cint where
  "BOARD_WIDTH = 10"

definition BOARD_HEIGHT :: cint where
  "BOARD_HEIGHT = 20"

definition LEVEL_THRESHOLD :: cint where
  "LEVEL_THRESHOLD = 5000"

definition MAX_LEVEL :: cint where
  "MAX_LEVEL = 10"

text \<open>\<^verbatim>\<open>int shape[4][2]\<close>: four \<open>(x, y)\<close> offsets.\<close>

type_synonym shape = "(cint \<times> cint) list"

text \<open>\<^verbatim>\<open>int board[BOARD_HEIGHT][BOARD_WIDTH]\<close>: a list of rows, row 0 first.\<close>

type_synonym grid = "cint list list"

text \<open>
  The table \<^verbatim>\<open>tetrominoes[7]\<close> (shapes only; the colours are used by the drawing
  callbacks alone).  An index outside \<open>0..6\<close> has no entry.
\<close>

definition tetrominoes :: "shape list" where
  "tetrominoes =
    [ [(0,0), (0,1), (1,0), (1,1)],
      [(0,0), (0,1), (0,2), (0,3)],
      [(0,0), (0,1), (1,1), (1,2)],
      [(0,1), (0,2), (1,0), (1,1)],
      [(0,0), (0,1), (0,2), (1,1)],
      [(0,0), (1,0), (2,0), (2,1)],
      [(0,1), (1,1), (2,0), (2,1)] ]"

text \<open>
  \<^verbatim>\<open>GameState\<close>.  The field \<^verbatim>\<open>score_text\<close> is the label text derived from
  score and level; it is written for the widget only and left out.
\<close>

record GameState =
  board :: grid
  board_colors :: grid
  current_x :: cint
  current_y :: cint
  current_piece :: shape
  current_type :: cint
  next_type :: cint
  score :: cint
  level :: cint
  game_speed :: cint
  game_over :: bool
  paused :: bool
  timeout_id :: nat

subsection \<open>\<^verbatim>\<open>can_move\<close>\<close>

text \<open>
  The body of the loop of \<^verbatim>\<open>can_move\<close> for one offset: \<open>True\<close> when the cell makes
  the function return \<^verbatim>\<open>false\<close>.
\<close>

definition cell_blocked :: "GameState \<Rightarrow> cint \<Rightarrow> cint \<Rightarrow> cint \<times> cint \<Rightarrow> bool" where
  "cell_blocked g dx dy off =
    (let new_x = current_x g + fst off + dx;
         new_y = current_y g + snd off + dy
     in new_x <s 0 \<or> BOARD_WIDTH \<le>s new_x \<or> BOARD_HEIGHT \<le>s new_y \<or>
        (0 \<le>s new_y \<and> board g ! unat new_y ! unat new_x \<noteq> 0))"

fun can_move_from :: "GameState \<Rightarrow> cint \<Rightarrow> cint \<Rightarrow> shape \<Rightarrow> bool" where
  "can_move_from g dx dy [] = True"
| "can_move_from g dx dy (off # rest) =
    (if cell_blocked g dx dy off then False else can_move_from g dx dy rest)"

definition can_move :: "GameState \<Rightarrow> cint \<Rightarrow> cint \<Rightarrow> bool" where
  "can_move g dx dy = can_move_from g dx dy (current_piece g)"

subsection \<open>\<^verbatim>\<open>land_piece\<close>\<close>

definition land_cell :: "GameState \<Rightarrow> cint \<times> cint \<Rightarrow> GameState" where
  "land_cell g off =
    (let x = current_x g + fst off;
         y = current_y g + snd off
     in if 0 \<le>s y \<and> 0 \<le>s x \<and> x <s BOARD_WIDTH \<and> y <s BOARD_HEIGHT
        then g\<lparr>board := (board g)[unat y := (board g ! unat y)[unat x := 1]],
               board_colors :=
                 (board_colors g)[unat y := (board_colors g ! unat y)[unat x := current_type g + 1]]\<rparr>
        else g)"

fun land_cells :: "GameState \<Rightarrow> shape \<Rightarrow> GameState" where
  "land_cells g [] = g"
| "land_cells g (off # rest) = land_cells (land_cell g off) rest"

definition land_piece :: "GameState \<Rightarrow> GameState" where
  "land_piece g = land_cells g (current_piece g)"

subsection \<open>The registry of GLib timeout sources\<close>

text \<open>
  \<^verbatim>\<open>g_timeout_add\<close> and \<^verbatim>\<open>g_source_remove\<close> are calls into GLib.  What the program
  can observe of them is kept as the list of active timeout sources, each with its id and
  its interval in milliseconds, and the next unused id.  Per the GLib documentation a
  timeout source stays active until it is removed or until its callback returns
  \<^verbatim>\<open>FALSE\<close>, which destroys the source that is being dispatched (and no other).
\<close>

record MainContext =
  timeouts :: "(nat \<times> cint) list"
  next_id :: nat

definition g_timeout_add :: "cint \<Rightarrow> MainContext \<Rightarrow> nat \<times> MainContext" where
  "g_timeout_add interval ctx =
    (next_id ctx,
     ctx\<lparr>timeouts := timeouts ctx @ [(next_id ctx, interval)], next_id := Suc (next_id ctx)\<rparr>)"

definition g_source_remove :: "nat \<Rightarrow> MainContext \<Rightarrow> MainContext" where
  "g_source_remove tag ctx = ctx\<lparr>timeouts := filter (\<lambda>src. fst src \<noteq> tag) (timeouts ctx)\<rparr>"

text \<open>The global \<^verbatim>\<open>game\<close> together with the main context it registers its timer in.\<close>

record World =
  game :: GameState
  glib :: MainContext

text \<open>
  What the model does where the C program has no defined result: a division by zero,
  an index outside \<^verbatim>\<open>tetrominoes\<close>, a loop that does not end.
\<close>

datatype fault = DivByZero | OutOfBounds | NoReturn

subsection \<open>\<^verbatim>\<open>clear_lines\<close>\<close>

text \<open>The scan \<^verbatim>\<open>for (x = 0; x < BOARD_WIDTH; x++) if (!board[y][x]) { full = false; break; }\<close>.\<close>

definition row_full :: "cint list \<Rightarrow> bool" where
  "row_full r = list_all (\<lambda>v. v \<noteq> 0) (take (unat BOARD_WIDTH) r)"

text \<open>
  \<^verbatim>\<open>for (yy = y; yy > 0; yy--) memcpy(a[yy], a[yy-1], ...)\<close> followed by
  \<^verbatim>\<open>memset(a[0], 0, ...)\<close>, for one of the two arrays.
\<close>

fun shift_down :: "nat \<Rightarrow> grid \<Rightarrow> grid" where
  "shift_down 0 a = a"
| "shift_down (Suc n) a = shift_down n (a[Suc n := a ! n])"

definition remove_row :: "nat \<Rightarrow> grid \<Rightarrow> grid" where
  "remove_row y a = (shift_down y a)[0 := replicate (unat BOARD_WIDTH) 0]"

text \<open>
  The outer loop, from the test \<^verbatim>\<open>y >= 0\<close> on.  After a full row the source does
  \<^verbatim>\<open>y++\<close> and the loop header \<^verbatim>\<open>y--\<close>: the same index is examined again.
  The counter \<open>y\<close> runs over \<open>-1..19\<close> and is kept as an integer.
\<close>

partial_function (option) clear_loop ::
  "int \<Rightarrow> cint \<Rightarrow> grid \<Rightarrow> grid \<Rightarrow> (cint \<times> grid \<times> grid) option" where
  "clear_loop y lines b c =
    (if 0 \<le> y then
       if row_full (b ! nat y)
       then clear_loop y (lines + 1) (remove_row (nat y) b) (remove_row (nat y) c)
       else clear_loop (y - 1) lines b c
     else Some (lines, b, c))"

text \<open>C's \<^verbatim>\<open>/\<close> on \<^verbatim>\<open>int\<close>: the quotient truncated towards zero.\<close>

definition c_div :: "cint \<Rightarrow> cint \<Rightarrow> cint" where
  "c_div a b = word_of_int (sint a sdiv sint b)"

definition clear_lines :: "World \<Rightarrow> fault + World" where
  "clear_lines w =
    (let g = game w in
     case clear_loop (sint BOARD_HEIGHT - 1) 0 (board g) (board_colors g) of
       None \<Rightarrow> Inl NoReturn
     | Some (lines, b, c) \<Rightarrow>
        (let g1 = g\<lparr>board := b, board_colors := c\<rparr>;
             g2 = g1\<lparr>score := (if INT_MAX <s score g1 + lines * 100 * level g1
                                then INT_MAX
                                else score g1 + lines * 100 * level g1)\<rparr>
         in if level g2 * LEVEL_THRESHOLD \<le>s score g2 \<and> level g2 <s MAX_LEVEL then
              (let g3 = g2\<lparr>level := level g2 + 1\<rparr> in
               if level g3 = 0 then Inl DivByZero
               else
                 (let g4 = g3\<lparr>game_speed := c_div 500 (level g3)\<rparr>;
                      ctx1 = g_source_remove (timeout_id g4) (glib w);
                      (tag, ctx2) = g_timeout_add (game_speed g4) ctx1
                  in Inr \<lparr>game = g4\<lparr>timeout_id := tag\<rparr>, glib = ctx2\<rparr>))
            else Inr (w\<lparr>game := g2\<rparr>)))"

subsection \<open>\<^verbatim>\<open>new_piece\<close>\<close>

text \<open>
  The argument \<open>r\<close> is the value that \<^verbatim>\<open>secure_rand(7)\<close> returns at this call.
\<close>

definition new_piece :: "cint \<Rightarrow> GameState \<Rightarrow> fault + GameState" where
  "new_piece r g =
    (let g1 = g\<lparr>current_type := next_type g\<rparr>;
         g2 = g1\<lparr>next_type := r, current_x := BOARD_WIDTH div 2 - 2, current_y := 0\<rparr>
     in if 0 \<le>s current_type g2 \<and> current_type g2 <s 7
        then Inr (g2\<lparr>current_piece := tetrominoes ! unat (current_type g2)\<rparr>)
        else Inl OutOfBounds)"

subsection \<open>\<^verbatim>\<open>game_loop\<close>\<close>

text \<open>
  The result carries the \<^verbatim>\<open>gboolean\<close> that the callback returns: \<open>True\<close> keeps the
  timeout source alive, \<open>False\<close> is the return on game over.
\<close>

definition game_loop :: "cint \<Rightarrow> World \<Rightarrow> fault + (bool \<times> World)" where
  "game_loop r w =
    (let g = game w in
     if paused g \<or> game_over g then Inr (True, w)
     else if can_move g 0 1 then Inr (True, w\<lparr>game := g\<lparr>current_y := current_y g + 1\<rparr>\<rparr>)
     else
       (case clear_lines (w\<lparr>game := land_piece g\<rparr>) of
          Inl e \<Rightarrow> Inl e
        | Inr w1 \<Rightarrow>
           (case new_piece r (game w1) of
              Inl e \<Rightarrow> Inl e
            | Inr g2 \<Rightarrow>
               if \<not> can_move g2 0 0
               then Inr (False, w1\<lparr>game := g2\<lparr>game_over := True\<rparr>\<rparr>)
               else Inr (True, w1\<lparr>game := g2\<rparr>))))"

text \<open>
  One firing of the timeout source \<open>src\<close>: GLib calls \<^verbatim>\<open>game_loop\<close> and destroys
  the source when the callback returned \<^verbatim>\<open>FALSE\<close>.  A source that is no longer
  registered does not fire.
\<close>

definition timeout_dispatch :: "nat \<Rightarrow> cint \<Rightarrow> World \<Rightarrow> fault + World" where
  "timeout_dispatch src r w =
    (if src \<in> set (map fst (timeouts (glib w))) then
       (case game_loop r w of
          Inl e \<Rightarrow> Inl e
        | Inr (continue, w1) \<Rightarrow>
            Inr (if continue then w1 else w1\<lparr>glib := g_source_remove src (glib w1)\<rparr>))
     else Inr w)"

subsection \<open>\<^verbatim>\<open>toggle_pause\<close> and \<^verbatim>\<open>key_press\<close>\<close>

definition toggle_pause :: "GameState \<Rightarrow> GameState" where
  "toggle_pause g = (if game_over g then g else g\<lparr>paused := \<not> paused g\<rparr>)"

text \<open>The key values the handler distinguishes; every other key is \<open>GDK_KEY_other\<close>.\<close>

datatype keyval = GDK_KEY_Left | GDK_KEY_Right | GDK_KEY_Down | GDK_KEY_Up | GDK_KEY_p
  | GDK_KEY_other

text \<open>The loop of the \<^verbatim>\<open>GDK_KEY_Up\<close> case: every offset \<open>(x, y)\<close> becomes \<open>(y, -x)\<close>.\<close>

definition rotate_piece :: "shape \<Rightarrow> shape" where
  "rotate_piece p = map (\<lambda>off. (snd off, - fst off)) p"

text \<open>
  The event pointer may be \<^verbatim>\<open>NULL\<close> (\<open>None\<close>).  The handler returns \<^verbatim>\<open>TRUE\<close> on
  every path, so only the state is kept.
\<close>

definition key_press :: "keyval option \<Rightarrow> GameState \<Rightarrow> GameState" where
  "key_press event g =
    (if game_over g then g
     else case event of
       None \<Rightarrow> g
     | Some k \<Rightarrow>
          (let g1 = (if k = GDK_KEY_p then toggle_pause g else g) in
           if paused g1 then g1
           else
             (case k of
                GDK_KEY_Left \<Rightarrow>
                  if can_move g1 (- 1) 0 then g1\<lparr>current_x := current_x g1 - 1\<rparr> else g1
              | GDK_KEY_Right \<Rightarrow>
                  if can_move g1 1 0 then g1\<lparr>current_x := current_x g1 + 1\<rparr> else g1
              | GDK_KEY_Down \<Rightarrow>
                  if can_move g1 0 1 then g1\<lparr>current_y := current_y g1 + 1\<rparr> else g1
              | GDK_KEY_Up \<Rightarrow>
                  (let temp_piece = current_piece g1;
                       g2 = g1\<lparr>current_piece := rotate_piece (current_piece g1)\<rparr>
                   in if \<not> can_move g2 0 0 then g2\<lparr>current_piece := temp_piece\<rparr> else g2)
              | _ \<Rightarrow> g1)))"

subsection \<open>\<^verbatim>\<open>init_game_state\<close>, \<^verbatim>\<open>start_new_game\<close> and the start in \<^verbatim>\<open>main\<close>\<close>

text \<open>\<^verbatim>\<open>memset(&game, 0, sizeof(GameState))\<close>, then speed 500 and level 1.\<close>

definition init_game_state :: GameState where
  "init_game_state =
    \<lparr>board = replicate (unat BOARD_HEIGHT) (replicate (unat BOARD_WIDTH) 0),
     board_colors = replicate (unat BOARD_HEIGHT) (replicate (unat BOARD_WIDTH) 0),
     current_x = 0, current_y = 0,
     current_piece = replicate 4 (0, 0),
     current_type = 0, next_type = 0,
     score = 0, level = 1, game_speed = 500,
     game_over = False, paused = False, timeout_id = 0\<rparr>"

definition start_new_game :: "cint \<Rightarrow> World \<Rightarrow> fault + World" where
  "start_new_game r w =
    (let g = init_game_state;
         ctx1 = (if timeout_id g \<noteq> 0 then g_source_remove (timeout_id g) (glib w) else glib w);
         (tag, ctx2) = g_timeout_add (game_speed g) ctx1
     in case new_piece r (g\<lparr>timeout_id := tag\<rparr>) of
          Inl e \<Rightarrow> Inl e
        | Inr g1 \<Rightarrow> Inr \<lparr>game = g1, glib = ctx2\<rparr>)"

text \<open>
  The start of the program in \<^verbatim>\<open>main\<close>: \<^verbatim>\<open>init_game_state\<close>, a first draw of the
  next type (\<open>r0\<close>), \<^verbatim>\<open>new_piece\<close> (drawing \<open>r1\<close>), and the first timeout in a main
  context without sources.
\<close>

definition main_start :: "cint \<Rightarrow> cint \<Rightarrow> fault + World" where
  "main_start r0 r1 =
    (case new_piece r1 (init_game_state\<lparr>next_type := r0\<rparr>) of
       Inl e \<Rightarrow> Inl e
     | Inr g \<Rightarrow>
        (let (tag, ctx) = g_timeout_add (game_speed g) \<lparr>timeouts = [], next_id = 1\<rparr>
         in Inr \<lparr>game = g\<lparr>timeout_id := tag\<rparr>, glib = ctx\<rparr>))"

section \<open>Concrete states used to exercise the theorems\<close>

text \<open>The square piece at column 3 and height \<open>y\<close> over the empty board.\<close>

definition square_at :: "cint \<Rightarrow> GameState" where
  "square_at y =
    init_game_state\<lparr>current_x := 3, current_y := y, current_piece := tetrominoes ! 0\<rparr>"

text \<open>
  A board with the adjacent rows 17 and 18 full, a partly filled row 16 above them and a
  partly filled row 19 below, at level 1 with score 19800 and one registered timeout.
\<close>

definition stacked_rows :: World where
  "stacked_rows =
    \<lparr>game = init_game_state
       \<lparr>board := replicate 16 (replicate 10 0) @
                 [[0,0,0,0,1,0,0,0,0,0], [1,1,1,1,1,1,1,1,1,1], [1,1,1,1,1,1,1,1,1,1],
                  [1,1,1,0,0,0,1,1,1,1]],
        board_colors := replicate 16 (replicate 10 0) @
                 [[0,0,0,0,5,0,0,0,0,0], [2,2,2,2,5,5,5,3,3,3], [1,1,4,4,4,2,2,2,2,7],
                  [1,1,4,0,0,0,6,6,7,7]],
        score := 19800, timeout_id := 1\<rparr>,
     glib = \<lparr>timeouts = [(1, 500)], next_id = 2\<rparr>\<rparr>"

text \<open>
  Row 19 full, score 2147483000 and level 10: the next cleared line is worth 1000 points,
  more than is left below \<^verbatim>\<open>INT_MAX\<close>.
\<close>

definition near_int_max :: World where
  "near_int_max =
    \<lparr>game = init_game_state
       \<lparr>board := replicate 19 (replicate 10 0) @ [[1,1,1,1,1,1,1,1,1,1]],
        board_colors := replicate 19 (replicate 10 0) @ [[1,1,2,2,2,2,1,1,5,5]],
        score := 2147483000, level := 10, game_speed := 50, timeout_id := 1\<rparr>,
     glib = \<lparr>timeouts = [(1, 50)], next_id = 2\<rparr>\<rparr>"

text \<open>
  The state after \<^verbatim>\<open>new_piece\<close> has spawned the square at the start of a game,
  moved to height \<open>y\<close>; \<open>r\<close> is the type drawn for the next piece.
\<close>

definition spawned_square :: "cint \<Rightarrow> cint \<Rightarrow> GameState" where
  "spawned_square r y = (square_at y)\<lparr>next_type := r\<rparr>"

text \<open>The T piece, as spawned, with its anchor at \<open>(x, y)\<close> over the empty board.\<close>

definition t_piece_at :: "cint \<Rightarrow> cint \<Rightarrow> GameState" where
  "t_piece_at x y =
    init_game_state\<lparr>current_x := x, current_y := y, current_type := 4,
                    current_piece := tetrominoes ! 4\<rparr>"

text \<open>
  A world with one registered timeout whose game is paused (\<open>p\<close>) or over (\<open>over\<close>).
\<close>

definition halted_world :: "bool \<Rightarrow> bool \<Rightarrow> World" where
  "halted_world p over =
    \<lparr>game = (t_piece_at 3 5)\<lparr>paused := p, game_over := over, timeout_id := 1\<rparr>,
     glib = \<lparr>timeouts = [(1, 500)], next_id = 2\<rparr>\<rparr>"

text \<open>
  A game about to end on a level-up.  The stack reaches row 3, row 2 lacks columns 3 and 4,
  the square sits at anchor \<open>(3, 1)\<close> and cannot descend, the next piece is the line, the
  score is 4900 at level 1, and the timeout with id 1 is the only registered source.
\<close>

definition topped_out :: World where
  "topped_out =
    \<lparr>game = init_game_state
       \<lparr>board := [[0,0,0,0,0,0,0,0,0,0], [0,0,0,0,0,0,0,0,0,0], [1,1,1,0,0,1,1,1,1,1]]
                   @ replicate 17 [0,1,1,1,1,1,1,1,1,1],
        board_colors := [[0,0,0,0,0,0,0,0,0,0], [0,0,0,0,0,0,0,0,0,0], [2,2,2,0,0,3,3,3,3,3]]
                   @ replicate 17 [0,5,5,5,5,6,6,6,6,7],
        current_x := 3, current_y := 1, current_piece := tetrominoes ! 0,
        current_type := 0, next_type := 1,
        score := 4900, timeout_id := 1\<rparr>,
     glib = \<lparr>timeouts = [(1, 500)], next_id = 2\<rparr>\<rparr>"

text \<open>The world that the tick of \<open>topped_out\<close> leaves, with 2 drawn as the next type.\<close>

definition topped_out_after :: World where
  "topped_out_after =
    \<lparr>game = init_game_state
       \<lparr>board := [[0,0,0,0,0,0,0,0,0,0], [0,0,0,0,0,0,0,0,0,0], [0,0,0,1,1,0,0,0,0,0]]
                   @ replicate 17 [0,1,1,1,1,1,1,1,1,1],
        board_colors := [[0,0,0,0,0,0,0,0,0,0], [0,0,0,0,0,0,0,0,0,0], [0,0,0,1,1,0,0,0,0,0]]
                   @ replicate 17 [0,5,5,5,5,6,6,6,6,7],
        current_x := 3, current_y := 0, current_piece := tetrominoes ! 1,
        current_type := 1, next_type := 2,
        score := 5000, level := 2, game_speed := 250, game_over := True, timeout_id := 2\<rparr>,
     glib = \<lparr>timeouts = [(2, 250)], next_id = 3\<rparr>\<rparr>"

section \<open>Notions used to state the properties\<close>

text \<open>A row as \<^verbatim>\<open>memset\<close> leaves it: ten cells, all zero.\<close>

definition empty_row :: "cint list" where
  "empty_row = replicate (unat BOARD_WIDTH) 0"

text \<open>The rows of the colour array that sit at the indices of the rows of \<open>b\<close> that are not full.\<close>

definition kept_colors :: "grid \<Rightarrow> grid \<Rightarrow> grid" where
  "kept_colors b c = map snd (filter (\<lambda>rc. \<not> row_full (fst rc)) (zip b c))"

text \<open>The number of occupied (nonzero) cells of a grid.\<close>

definition occupied :: "grid \<Rightarrow> nat" where
  "occupied a = sum_list (map (\<lambda>r. length (filter (\<lambda>v. v \<noteq> 0) r)) a)"

section \<open>State invariant and reachable states\<close>

text \<open>
  A board cell with its colour index: the cell is occupied exactly when the colour index
  is nonzero, and the colour index is within \<open>0..7\<close>.
\<close>

definition cell_ok :: "cint \<Rightarrow> cint \<Rightarrow> bool" where
  "cell_ok v col = ((v \<noteq> 0) = (col \<noteq> 0) \<and> 0 \<le>s col \<and> col \<le>s 7)"

text \<open>Both arrays are 20 by 10 and every cell agrees with its colour index.\<close>

definition cells_ok :: "GameState \<Rightarrow> bool" where
  "cells_ok g =
    (length (board g) = 20 \<and> length (board_colors g) = 20 \<and>
     (\<forall>y<20. length (board g ! y) = 10 \<and> length (board_colors g ! y) = 10 \<and>
        (\<forall>x<10. cell_ok (board g ! y ! x) (board_colors g ! y ! x))))"

text \<open>The current and the next piece type index the table \<^verbatim>\<open>tetrominoes\<close>.\<close>

definition types_ok :: "GameState \<Rightarrow> bool" where
  "types_ok g =
    (0 \<le>s current_type g \<and> current_type g <s 7 \<and> 0 \<le>s next_type g \<and> next_type g <s 7)"

definition level_ok :: "GameState \<Rightarrow> bool" where
  "level_ok g = (1 \<le>s level g \<and> level g \<le>s 10)"

definition state_ok :: "GameState \<Rightarrow> bool" where
  "state_ok g = (cells_ok g \<and> types_ok g \<and> level_ok g)"

text \<open>
  The states the running program can be in: the start in \<^verbatim>\<open>main\<close>, then any
  sequence of timeout firings, key presses, clicks on the pause button and clicks on the
  new-game button.  Every value drawn by \<^verbatim>\<open>secure_rand(7)\<close> is within \<open>0..6\<close>.
\<close>

inductive reachable :: "World \<Rightarrow> bool" where
  start: "0 \<le>s r0 \<Longrightarrow> r0 <s 7 \<Longrightarrow> 0 \<le>s r1 \<Longrightarrow> r1 <s 7 \<Longrightarrow> main_start r0 r1 = Inr w \<Longrightarrow>
            reachable w"
| tick: "reachable w \<Longrightarrow> 0 \<le>s r \<Longrightarrow> r <s 7 \<Longrightarrow> timeout_dispatch src r w = Inr w' \<Longrightarrow>
            reachable w'"
| key: "reachable w \<Longrightarrow> reachable (w\<lparr>game := key_press event (game w)\<rparr>)"
| pause_button: "reachable w \<Longrightarrow> reachable (w\<lparr>game := toggle_pause (game w)\<rparr>)"
| new_game_button: "reachable w \<Longrightarrow> 0 \<le>s r \<Longrightarrow> r <s 7 \<Longrightarrow> start_new_game r w = Inr w' \<Longrightarrow>
            reachable w'"

text \<open>A board row with its colour row, as a relation on lists.\<close>

definition row_ok :: "cint list \<Rightarrow> cint list \<Rightarrow> bool" where
  "row_ok r cr = (length r = 10 \<and> list_all2 cell_ok r cr)"

text \<open>
  What \<^verbatim>\<open>land_piece\<close> may do to a cell on the way from \<open>g\<close> to \<open>g'\<close>: leave it and
  its colour index as they are, or mark it occupied with colour index
  \<^verbatim>\<open>current_type + 1\<close>.
\<close>

definition committed :: "GameState \<Rightarrow> GameState \<Rightarrow> bool" where
  "committed g g' =
    (\<forall>y<20. \<forall>x<10.
       (board g' ! y ! x = board g ! y ! x \<and> board_colors g' ! y ! x = board_colors g ! y ! x) \<or>
       (board g' ! y ! x = 1 \<and> board_colors g' ! y ! x = current_type g + 1))"

text \<open>The world right after the start of the program, with the square as first piece.\<close>

definition started_world :: World where
  "started_world =
    \<lparr>game = (spawned_square 4 0)\<lparr>timeout_id := 1\<rparr>,
     glib = \<lparr>timeouts = [(1, 500)], next_id = 2\<rparr>\<rparr>"

section \<open>Facts about signed comparison\<close>

lemma not_sless_iff_sle: "(\<not> a <s b) = (b \<le>s a)"
  by (simp add: word_sless_alt word_sle_eq not_less)

lemma not_sle_iff_sless: "(\<not> a \<le>s b) = (b <s a)"
  by (simp add: word_sless_alt word_sle_eq not_le)

lemmas scmp = word_sless_alt word_sle_eq

lemma sint_of_small_nat: "n < 2147483648 \<Longrightarrow> sint (of_nat n :: cint) = int n"
  by (simp add: signed_of_nat signed_take_bit_int_eq_self)

lemmas c_consts = BOARD_WIDTH_def BOARD_HEIGHT_def LEVEL_THRESHOLD_def MAX_LEVEL_def INT_MAX_def

section \<open>Collision test\<close>

lemma can_move_from_iff:
  "can_move_from g dx dy p = (\<forall>off \<in> set p. \<not> cell_blocked g dx dy off)"
  by (induction p) auto

lemma cell_blocked_iff:
  "(\<not> cell_blocked g dx dy off) =
     (0 \<le>s current_x g + fst off + dx \<and> current_x g + fst off + dx <s 10 \<and>
      current_y g + snd off + dy <s 20 \<and>
      (0 \<le>s current_y g + snd off + dy \<longrightarrow>
         board g ! unat (current_y g + snd off + dy) ! unat (current_x g + fst off + dx) = 0))"
  by (auto simp: cell_blocked_def Let_def c_consts not_sless_iff_sle not_sle_iff_sless)

lemma all_less_4: "(\<forall>i<4. P i) = (P 0 \<and> P 1 \<and> P 2 \<and> P (3::nat))"
proof -
  have "(i < 4) = (i = 0 \<or> i = 1 \<or> i = 2 \<or> i = 3)" for i :: nat
    by arith
  then show ?thesis by auto
qed

lemma can_move_cells:
  assumes "length (current_piece g) = 4"
  shows "can_move g dx dy =
           (\<forall>i<4. let x = current_x g + fst (current_piece g ! i) + dx;
                      y = current_y g + snd (current_piece g ! i) + dy
                  in 0 \<le>s x \<and> x <s 10 \<and> y <s 20 \<and> (0 \<le>s y \<longrightarrow> board g ! unat y ! unat x = 0))"
proof -
  have "(\<forall>off \<in> set (current_piece g). P off) = (\<forall>i<4. P (current_piece g ! i))" for P
    using assms by (simp add: all_set_conv_all_nth)
  then show ?thesis
    by (simp add: can_move_def can_move_from_iff cell_blocked_iff Let_def)
qed

lemma can_move_above_grid:
  assumes "length (current_piece g) = 4"
    and above: "\<forall>i<4. current_y g + snd (current_piece g ! i) + dy <s 0"
  shows "can_move (g\<lparr>board := b\<rparr>) dx dy = can_move g dx dy"
proof -
  have "cell_blocked (g\<lparr>board := b\<rparr>) dx dy (current_piece g ! i) =
        cell_blocked g dx dy (current_piece g ! i)" if "i < 4" for i
    using above that by (auto simp: cell_blocked_def Let_def not_sle_iff_sless [symmetric])
  then show ?thesis
    using assms by (simp add: can_move_def can_move_from_iff all_set_conv_all_nth)
qed

lemma square_at_simps:
  "current_piece (square_at y) = [(0,0), (0,1), (1,0), (1,1)]"
  "current_x (square_at y) = 3"
  "current_y (square_at y) = y"
  "board (square_at y) = replicate 20 (replicate 10 0)"
  by (simp_all add: square_at_def init_game_state_def tetrominoes_def c_consts)

text \<open>
  Claim C4.  For every board, active piece and displacement \<open>(dx, dy)\<close>, \<open>can_move\<close>
  returns true exactly when each of the four absolute cells
  \<open>(current_x + offset.x + dx, current_y + offset.y + dy)\<close> has \<open>x \<ge> 0\<close>, \<open>x < 10\<close>,
  \<open>y < 20\<close> and, if \<open>y \<ge> 0\<close>, an unoccupied board cell at \<open>(x, y)\<close>.  A cell with
  \<open>y < 0\<close> is not tested against the board: when all four cells are above the grid the
  result is the same for every board.
\<close>

theorem can_move_iff_cells_free:
  assumes "length (current_piece g) = 4"
  shows "(can_move g dx dy =
           (\<forall>i<4. let x = current_x g + fst (current_piece g ! i) + dx;
                      y = current_y g + snd (current_piece g ! i) + dy
                  in 0 \<le>s x \<and> x <s 10 \<and> y <s 20 \<and> (0 \<le>s y \<longrightarrow> board g ! unat y ! unat x = 0)))
       \<and> ((\<forall>i<4. current_y g + snd (current_piece g ! i) + dy <s 0) \<longrightarrow>
           can_move (g\<lparr>board := b\<rparr>) dx dy = can_move g dx dy)"
  using can_move_cells [OF assms] can_move_above_grid [OF assms] by blast

theorem can_move_iff_cells_free_witness:
  "length (current_piece (square_at 5)) = 4 \<and> can_move (square_at 5) 0 1 \<and>
   can_move ((square_at (- 5))\<lparr>board := replicate 20 (replicate 10 1)\<rparr>) 0 0"
proof -
  have len: "length (current_piece (square_at y)) = 4" for y
    by (simp add: square_at_simps)
  have "can_move (square_at 5) 0 1"
    using can_move_iff_cells_free [OF len, of 5 0 1]
    by (simp add: all_less_4 square_at_simps scmp)
  moreover have "can_move ((square_at (- 5))\<lparr>board := replicate 20 (replicate 10 1)\<rparr>) 0 0"
    using can_move_iff_cells_free [OF len, of "- 5" 0 0 "replicate 20 (replicate 10 1)"]
    by (simp add: all_less_4 square_at_simps scmp)
  ultimately show ?thesis using len by simp
qed

section \<open>Line clearing\<close>

lemma empty_row_not_full: "\<not> row_full empty_row"
  by (simp add: row_full_def empty_row_def c_consts list_all_iff)

lemma shift_down_eq:
  "y < length a \<Longrightarrow> shift_down y a = take 1 a @ take y a @ drop (Suc y) a"
proof (induction y arbitrary: a)
  case 0
  then show ?case by (cases a) simp_all
next
  case (Suc n)
  then have n: "n < length a" by simp
  have "shift_down (Suc n) a = shift_down n (a[Suc n := a ! n])" by simp
  also have "\<dots> = take 1 (a[Suc n := a ! n]) @ take n (a[Suc n := a ! n]) @ drop (Suc n) (a[Suc n := a ! n])"
    using Suc.prems by (intro Suc.IH) simp
  also have "take 1 (a[Suc n := a ! n]) = take 1 a" by (cases a) simp_all
  also have "take n (a[Suc n := a ! n]) = take n a" by simp
  also have "drop (Suc n) (a[Suc n := a ! n]) = a ! n # drop (Suc (Suc n)) a"
    using Suc.prems by (simp add: drop_update_swap Cons_nth_drop_Suc [symmetric] upd_conv_take_nth_drop)
  finally show ?case using n by (simp add: take_Suc_conv_app_nth)
qed

lemma remove_row_eq:
  "y < length a \<Longrightarrow> remove_row y a = empty_row # take y a @ drop (Suc y) a"
  by (cases a) (simp_all add: remove_row_def shift_down_eq empty_row_def)

lemma remove_row_snoc:
  "length t = y \<Longrightarrow> remove_row y (t @ r # lo) = empty_row # t @ lo"
  by (simp add: remove_row_eq)

lemma clear_loop_inv:
  "length chi = length hi \<Longrightarrow>
   clear_loop (int (length hi) - 1) lines (hi @ lo) (chi @ clo) =
     Some (lines + of_nat (length (filter row_full hi)),
           replicate (length (filter row_full hi)) empty_row @ filter (\<lambda>r. \<not> row_full r) hi @ lo,
           replicate (length (filter row_full hi)) empty_row @ kept_colors hi chi @ clo)"
proof (induction "length (filter row_full hi) + length hi" arbitrary: hi chi lo clo lines rule: less_induct)
  case less
  show ?case
  proof (cases hi rule: rev_cases)
    case Nil
    with less.prems show ?thesis
      by (subst clear_loop.simps) (simp add: kept_colors_def)
  next
    case (snoc t r)
    with less.prems obtain ct cr where chi: "chi = ct @ [cr]" and lct: "length ct = length t"
      by (cases chi rule: rev_cases) auto
    have idx: "(t @ r # lo) ! length t = r" by simp
    show ?thesis
    proof (cases "row_full r")
      case False
      have "clear_loop (int (length hi) - 1) lines (hi @ lo) (chi @ clo) =
            clear_loop (int (length t) - 1) lines (t @ (r # lo)) (ct @ (cr # clo))"
        using snoc chi False by (subst clear_loop.simps) (simp add: idx)
      also have "\<dots> = Some (lines + of_nat (length (filter row_full t)),
           replicate (length (filter row_full t)) empty_row @ filter (\<lambda>r. \<not> row_full r) t @ (r # lo),
           replicate (length (filter row_full t)) empty_row @ kept_colors t ct @ (cr # clo))"
        using snoc lct by (intro less.hyps) simp_all
      finally show ?thesis
        using snoc chi False lct by (simp add: kept_colors_def)
    next
      case True
      have "clear_loop (int (length hi) - 1) lines (hi @ lo) (chi @ clo) =
            clear_loop (int (length (empty_row # t)) - 1) (lines + 1) ((empty_row # t) @ lo) ((empty_row # ct) @ clo)"
        using snoc chi True lct by (subst clear_loop.simps) (simp add: idx remove_row_snoc)
      also have "\<dots> = Some (lines + 1 + of_nat (length (filter row_full (empty_row # t))),
           replicate (length (filter row_full (empty_row # t))) empty_row @ filter (\<lambda>r. \<not> row_full r) (empty_row # t) @ lo,
           replicate (length (filter row_full (empty_row # t))) empty_row @ kept_colors (empty_row # t) (empty_row # ct) @ clo)"
        using snoc lct True by (intro less.hyps) (simp_all add: empty_row_not_full)
      finally show ?thesis
        using snoc chi True lct
        by (simp add: kept_colors_def empty_row_not_full replicate_app_Cons_same)
    qed
  qed
qed


lemma INT_MAX_greatest: "\<not> INT_MAX <s x"
  unfolding INT_MAX_def word_sless_alt using sint_lt [of x] by simp

lemma clear_loop_whole:
  assumes "length b = 20" "length c = 20"
  shows "clear_loop (sint BOARD_HEIGHT - 1) 0 b c =
     Some (of_nat (length (filter row_full b)),
           replicate (length (filter row_full b)) empty_row @ filter (\<lambda>r. \<not> row_full r) b,
           replicate (length (filter row_full b)) empty_row @ kept_colors b c)"
proof -
  have "sint BOARD_HEIGHT - 1 = int (length b) - 1"
    using assms by (simp add: c_consts)
  then show ?thesis
    using clear_loop_inv [of c b 0 "[]" "[]"] assms by simp
qed

lemma nth_filter_at:
  assumes "i < length xs" "P (xs ! i)"
  shows "filter P xs ! length (filter P (take i xs)) = xs ! i"
proof -
  have "xs = take i xs @ xs ! i # drop (Suc i) xs"
    using assms(1) by (simp add: id_take_nth_drop)
  then have "filter P xs = filter P (take i xs) @ xs ! i # filter P (drop (Suc i) xs)"
    using assms(2) by (metis filter.simps(2) filter_append)
  then show ?thesis by (simp add: nth_append)
qed

lemma filter_take_less:
  assumes "i < length xs" "P (xs ! i)"
  shows "length (filter P (take i xs)) < length (filter P xs)"
proof -
  have "xs = take i xs @ xs ! i # drop (Suc i) xs"
    using assms(1) by (simp add: id_take_nth_drop)
  then have "filter P xs = filter P (take i xs) @ xs ! i # filter P (drop (Suc i) xs)"
    using assms(2) by (metis filter.simps(2) filter_append)
  then show ?thesis by simp
qed

lemma length_filter_zip_fst:
  "length xs = length ys \<Longrightarrow>
   length (filter (\<lambda>p. P (fst p)) (zip xs ys)) = length (filter P xs)"
  by (induction xs ys rule: list_induct2) simp_all

lemma full_rows_split:
  assumes "i < length b" "\<not> row_full (b ! i)"
  shows "i + length (filter row_full (drop (Suc i) b)) =
         length (filter row_full b) + length (filter (\<lambda>r. \<not> row_full r) (take i b))"
proof -
  have b: "b = take i b @ b ! i # drop (Suc i) b"
    using assms(1) by (simp add: id_take_nth_drop)
  have "length (filter row_full b) =
        length (filter row_full (take i b)) + length (filter row_full (drop (Suc i) b))"
    by (subst b) (simp add: assms(2))
  moreover have "length (filter row_full (take i b)) + length (filter (\<lambda>r. \<not> row_full r) (take i b)) = i"
    using assms(1) sum_length_filter_compl [of row_full "take i b"] by simp
  ultimately show ?thesis by simp
qed

lemma kept_row_position:
  assumes "i < length b" "\<not> row_full (b ! i)"
  shows "(replicate (length (filter row_full b)) empty_row @ filter (\<lambda>r. \<not> row_full r) b)
           ! (i + length (filter row_full (drop (Suc i) b))) = b ! i"
  using assms by (simp add: full_rows_split nth_append nth_filter_at)

lemma kept_colors_position:
  assumes "i < length b" "length c = length b" "\<not> row_full (b ! i)"
  shows "(replicate (length (filter row_full b)) empty_row @ kept_colors b c)
           ! (i + length (filter row_full (drop (Suc i) b))) = c ! i"
proof -
  let ?P = "\<lambda>rc. \<not> row_full (fst rc)"
  let ?j = "length (filter (\<lambda>r. \<not> row_full r) (take i b))"
  have j: "?j = length (filter ?P (take i (zip b c)))"
    using assms(1,2) length_filter_zip_fst [of "take i b" "take i c" "\<lambda>r. \<not> row_full r"]
    by (simp add: take_zip)
  have "?j < length (filter ?P (zip b c))"
    unfolding j using assms by (intro filter_take_less) simp_all
  moreover have "filter ?P (zip b c) ! ?j = zip b c ! i"
    unfolding j using assms by (intro nth_filter_at) simp_all
  ultimately have "kept_colors b c ! ?j = c ! i"
    using assms by (simp add: kept_colors_def)
  then show ?thesis
    using assms by (simp add: full_rows_split nth_append)
qed

lemma occupied_cleared:
  assumes "\<forall>r \<in> set b. length r = 10"
  shows "occupied (replicate (length (filter row_full b)) empty_row @ filter (\<lambda>r. \<not> row_full r) b)
           + length (filter row_full b) * 10 = occupied b"
proof -
  have full: "length (filter (\<lambda>v. v \<noteq> 0) r) = 10" if "row_full r" "length r = 10" for r
  proof -
    have "filter (\<lambda>v. v \<noteq> 0) r = r"
      using that by (simp add: row_full_def c_consts list_all_iff)
    then show ?thesis using that by simp
  qed
  have empty: "occupied (replicate n empty_row) = 0" for n
    by (induction n) (simp_all add: occupied_def empty_row_def)
  have app: "occupied (xs @ ys) = occupied xs + occupied ys" for xs ys
    by (simp add: occupied_def)
  have "occupied (filter (\<lambda>r. \<not> row_full r) b) + length (filter row_full b) * 10 = occupied b"
    using assms by (induction b) (auto simp: occupied_def full)
  then show ?thesis by (simp add: app empty)
qed


lemma clear_lines_eq:
  assumes "length (board (game w)) = 20" "length (board_colors (game w)) = 20"
  shows "clear_lines w =
    (let g = game w;
         k = length (filter row_full (board g));
         g2 = g\<lparr>board := replicate k empty_row @ filter (\<lambda>r. \<not> row_full r) (board g),
                board_colors := replicate k empty_row @ kept_colors (board g) (board_colors g),
                score := score g + of_nat k * 100 * level g\<rparr>
     in if level g * 5000 \<le>s score g2 \<and> level g <s 10 then
          if level g + 1 = 0 then Inl DivByZero
          else Inr \<lparr>game = g2\<lparr>level := level g + 1, game_speed := c_div 500 (level g + 1),
                                timeout_id := next_id (glib w)\<rparr>,
                    glib = (glib w)\<lparr>timeouts :=
                              filter (\<lambda>src. fst src \<noteq> timeout_id g) (timeouts (glib w))
                                @ [(next_id (glib w), c_div 500 (level g + 1))],
                            next_id := Suc (next_id (glib w))\<rparr>\<rparr>
        else Inr (w\<lparr>game := g2\<rparr>))"
  by (simp add: clear_lines_def clear_loop_whole [OF assms] Let_def INT_MAX_greatest
      g_source_remove_def g_timeout_add_def LEVEL_THRESHOLD_def MAX_LEVEL_def)

lemma sint_succ: "l <s (10::cint) \<Longrightarrow> sint (l + 1) = sint l + 1"
proof -
  assume "l <s 10"
  then have "sint l < 10" by (simp add: word_sless_alt)
  moreover have "- (2 ^ 31) \<le> sint l" using sint_ge [of l] by simp
  ultimately show ?thesis
    by (simp add: sint_word_ariths signed_take_bit_int_eq_self)
qed

lemma c_div_500: "1 \<le>s l \<Longrightarrow> l \<le>s (10::cint) \<Longrightarrow> sint (c_div 500 l) = 500 div sint l"
proof -
  assume "1 \<le>s l" "l \<le>s 10"
  then have l: "1 \<le> sint l" "sint l \<le> 10" by (simp_all add: word_sle_eq)
  then have "sint (500::cint) sdiv sint l = 500 div sint l"
    by (simp add: signed_divide_int_def sgn_if)
  moreover have "0 \<le> 500 div sint l"
    using l by (simp add: pos_imp_zdiv_nonneg_iff)
  moreover have "500 div sint l \<le> 500"
    using l int_div_less_self [of 500 "sint l"] by (cases "sint l = 1") simp_all
  ultimately show ?thesis
    by (simp add: c_div_def signed_take_bit_int_eq_self sint_sbintrunc')
qed


lemma succ_nonzero: "l \<noteq> - 1 \<Longrightarrow> l + 1 \<noteq> (0::cint)"
  by (simp add: eq_neg_iff_add_eq_0 [symmetric])

lemma stacked_rows_simps:
  "length (board (game stacked_rows)) = 20"
  "length (board_colors (game stacked_rows)) = 20"
  "\<forall>r \<in> set (board (game stacked_rows)). length r = 10"
  "level (game stacked_rows) \<noteq> - 1"
  "filter row_full (board (game stacked_rows)) = [[1,1,1,1,1,1,1,1,1,1], [1,1,1,1,1,1,1,1,1,1]]"
  "board (game stacked_rows) ! 19 = [1,1,1,0,0,0,1,1,1,1]"
  "board_colors (game stacked_rows) ! 16 = [0,0,0,0,5,0,0,0,0,0]"
  "filter row_full (drop 20 (board (game stacked_rows))) = []"
  "filter row_full (drop 17 (board (game stacked_rows))) = [[1,1,1,1,1,1,1,1,1,1], [1,1,1,1,1,1,1,1,1,1]]"
  by (simp_all add: stacked_rows_def init_game_state_def row_full_def c_consts nth_append
      filter_replicate list_all_iff)

text \<open>
  Claim C1.  On the 20 by 10 board, \<open>clear_lines\<close> returns, and it removes exactly the
  full rows: with \<open>k\<close> the number of full rows, the new board is \<open>k\<close> all-empty rows
  followed by the rows that were not full, in their order (the colour array likewise).
  So every row that is kept moves down by the number of full rows below it, and the number
  of occupied cells decreases by \<open>k * 10\<close>.  The statement covers several full rows at
  once and full rows that arrive by a shift, since it holds for every board.  The state
  with level \<open>-1\<close> is left out: there the level-up of \<open>clear_lines\<close> divides by zero.
\<close>

theorem clear_lines_removes_full_rows:
  assumes "length (board (game w)) = 20" and "length (board_colors (game w)) = 20"
    and "\<forall>r \<in> set (board (game w)). length r = 10"
    and "level (game w) \<noteq> - 1"
  shows "\<exists>w'. clear_lines w = Inr w' \<and>
      board (game w') =
        replicate (length (filter row_full (board (game w)))) empty_row
          @ filter (\<lambda>r. \<not> row_full r) (board (game w)) \<and>
      board_colors (game w') =
        replicate (length (filter row_full (board (game w)))) empty_row
          @ kept_colors (board (game w)) (board_colors (game w)) \<and>
      (\<forall>i<20. \<not> row_full (board (game w) ! i) \<longrightarrow>
         board (game w') ! (i + length (filter row_full (drop (Suc i) (board (game w)))))
           = board (game w) ! i \<and>
         board_colors (game w') ! (i + length (filter row_full (drop (Suc i) (board (game w)))))
           = board_colors (game w) ! i) \<and>
      occupied (board (game w')) + length (filter row_full (board (game w))) * 10
        = occupied (board (game w))"
proof -
  let ?b = "board (game w)" and ?c = "board_colors (game w)"
  let ?b' = "replicate (length (filter row_full ?b)) empty_row @ filter (\<lambda>r. \<not> row_full r) ?b"
  let ?c' = "replicate (length (filter row_full ?b)) empty_row @ kept_colors ?b ?c"
  from assms(4) have nz: "level (game w) + 1 \<noteq> 0"
    by (rule succ_nonzero)
  have "\<exists>w'. clear_lines w = Inr w' \<and> board (game w') = ?b' \<and> board_colors (game w') = ?c'"
    using nz by (simp add: clear_lines_eq [OF assms(1,2)] Let_def)
  moreover have "?b' ! (i + length (filter row_full (drop (Suc i) ?b))) = ?b ! i"
    if "i < 20" "\<not> row_full (?b ! i)" for i
    using that assms(1) by (intro kept_row_position) simp_all
  moreover have "?c' ! (i + length (filter row_full (drop (Suc i) ?b))) = ?c ! i"
    if "i < 20" "\<not> row_full (?b ! i)" for i
    using that assms(1,2) by (intro kept_colors_position) simp_all
  moreover have "occupied ?b' + length (filter row_full ?b) * 10 = occupied ?b"
    using assms(3) by (rule occupied_cleared)
  ultimately show ?thesis by auto
qed

theorem clear_lines_removes_full_rows_witness:
  "\<exists>w'. clear_lines stacked_rows = Inr w' \<and>
      board (game w') ! 19 = [1,1,1,0,0,0,1,1,1,1] \<and>
      board_colors (game w') ! 18 = [0,0,0,0,5,0,0,0,0,0] \<and>
      occupied (board (game w')) + 20 = occupied (board (game stacked_rows))"
proof -
  have r19: "\<not> row_full (board (game stacked_rows) ! 19)"
    and r16: "\<not> row_full (board (game stacked_rows) ! 16)"
    by (simp_all add: stacked_rows_def init_game_state_def row_full_def c_consts nth_append)
  from clear_lines_removes_full_rows [OF stacked_rows_simps(1-4)]
  obtain w' where w': "clear_lines stacked_rows = Inr w'"
    and rows: "\<forall>i<20. \<not> row_full (board (game stacked_rows) ! i) \<longrightarrow>
         board (game w') ! (i + length (filter row_full (drop (Suc i) (board (game stacked_rows)))))
           = board (game stacked_rows) ! i \<and>
         board_colors (game w') ! (i + length (filter row_full (drop (Suc i) (board (game stacked_rows)))))
           = board_colors (game stacked_rows) ! i"
    and occ: "occupied (board (game w')) + length (filter row_full (board (game stacked_rows))) * 10
        = occupied (board (game stacked_rows))"
    by blast
  from rows [rule_format, of 19] r19 have "board (game w') ! 19 = [1,1,1,0,0,0,1,1,1,1]"
    by (simp add: stacked_rows_simps)
  moreover from rows [rule_format, of 16] r16
  have "board_colors (game w') ! 18 = [0,0,0,0,5,0,0,0,0,0]"
    by (simp add: stacked_rows_simps)
  moreover from occ have "occupied (board (game w')) + 20 = occupied (board (game stacked_rows))"
    by (simp add: stacked_rows_simps)
  ultimately show ?thesis using w' by blast
qed

section \<open>Score and level\<close>

text \<open>
  Claim C10.  One call of \<open>clear_lines\<close> raises the level by at most one: the level
  after the call is the level before or that level plus one, whatever the score is.
\<close>

theorem clear_lines_level_step:
  assumes "length (board (game w)) = 20" and "length (board_colors (game w)) = 20"
    and "level (game w) \<noteq> - 1"
  shows "\<exists>w'. clear_lines w = Inr w' \<and>
      (level (game w') = level (game w) \<or> level (game w') = level (game w) + 1) \<and>
      sint (level (game w')) \<le> sint (level (game w)) + 1"
proof -
  from assms(3) have nz: "level (game w) + 1 \<noteq> 0"
    by (rule succ_nonzero)
  show ?thesis
    using nz by (auto simp: clear_lines_eq [OF assms(1,2)] Let_def sint_succ)
qed

theorem clear_lines_level_step_witness:
  "\<exists>w'. clear_lines stacked_rows = Inr w' \<and> score (game w') = 20000 \<and>
      level (game stacked_rows) = 1 \<and> level (game w') = 2"
proof -
  from clear_lines_level_step [OF stacked_rows_simps(1,2,4)]
  obtain w' where w': "clear_lines stacked_rows = Inr w'" by blast
  have lv: "level (game stacked_rows) = 1" "score (game stacked_rows) = 19800"
    by (simp_all add: stacked_rows_def init_game_state_def)
  from w' have "score (game w') = 20000 \<and> level (game w') = 2"
    by (auto simp: clear_lines_eq [OF stacked_rows_simps(1,2)] Let_def stacked_rows_simps lv scmp
        split: if_splits)
  with w' lv show ?thesis by blast
qed


text \<open>
  As long as the sum stays within \<^verbatim>\<open>int\<close>, the new score is the old score plus
  \<open>lines * 100 * level\<close>.
\<close>

lemma sint_line_points:
  assumes "k \<le> 20" "1 \<le>s l" "l \<le>s (10::cint)"
  shows "sint (of_nat k * 100 * l :: cint) = int k * 100 * sint l"
proof -
  from assms have l: "1 \<le> sint l" "sint l \<le> 10" by (simp_all add: scmp)
  have k: "sint (of_nat k :: cint) = int k"
    using assms(1) by (simp add: sint_of_small_nat)
  have "int k * 100 \<le> 2000" using assms(1) by simp
  then have k100: "sint (of_nat k * 100 :: cint) = int k * 100"
    using k by (simp add: sint_word_ariths signed_take_bit_int_eq_self)
  have "int k * 100 * sint l \<le> 2000 * 10"
    using l \<open>int k * 100 \<le> 2000\<close> by (intro mult_mono) simp_all
  moreover have "0 \<le> int k * 100 * sint l" using l by simp
  ultimately show ?thesis
    using k100 by (simp add: sint_word_ariths signed_take_bit_int_eq_self)
qed

lemma score_update_in_range:
  assumes "length (board (game w)) = 20" "length (board_colors (game w)) = 20"
    and "1 \<le>s level (game w)" "level (game w) \<le>s 10" "0 \<le>s score (game w)"
    and "sint (score (game w)) +
           int (length (filter row_full (board (game w)))) * 100 * sint (level (game w))
         \<le> sint INT_MAX"
    and "clear_lines w = Inr w'"
  shows "sint (score (game w')) =
           sint (score (game w)) +
           int (length (filter row_full (board (game w)))) * 100 * sint (level (game w))"
proof -
  let ?k = "length (filter row_full (board (game w)))"
  have "?k \<le> length (board (game w))" by (rule length_filter_le)
  then have k: "?k \<le> 20" using assms(1) by simp
  note pts = sint_line_points [OF k assms(3,4)]
  let ?sum = "sint (score (game w)) + int ?k * 100 * sint (level (game w))"
  from assms(3,5) have nn: "0 \<le> int ?k * 100 * sint (level (game w))"
    "0 \<le> sint (score (game w))"
    by (simp_all add: scmp)
  then have "0 \<le> ?sum" by linarith
  moreover from assms(6) have "?sum \<le> 2147483647" by (simp add: INT_MAX_def)
  ultimately have range: "- (2 ^ 31) \<le> ?sum" "?sum < 2 ^ 31"
    by simp_all
  have "sint (score (game w) + of_nat ?k * 100 * level (game w)) =
      signed_take_bit 31 (sint (score (game w)) + sint (of_nat ?k * 100 * level (game w)))"
    by (simp add: sint_word_ariths)
  also have "\<dots> = signed_take_bit 31 ?sum"
    by (simp only: pts)
  also have "\<dots> = ?sum"
    using range by (rule signed_take_bit_int_eq_self)
  finally have "sint (score (game w) + of_nat ?k * 100 * level (game w)) = ?sum" .
  with assms(7) show ?thesis
    by (auto simp: clear_lines_eq [OF assms(1,2)] Let_def split: if_splits)
qed

text \<open>
  Claim C2 (the score update saturates at the largest \<^verbatim>\<open>int\<close>) fails on the code.
  The test \<^verbatim>\<open>score + lines * 100 * level > INT_MAX\<close> is made on \<^verbatim>\<open>int\<close> values and
  is never true, so the sum is stored as it is.  In the state \<open>near_int_max\<close> one cleared
  line takes the score from 2147483000 to a negative value instead of \<^verbatim>\<open>INT_MAX\<close>.
\<close>

theorem score_wraps_past_int_max:
  "\<exists>w'. clear_lines near_int_max = Inr w' \<and>
     sint (score (game near_int_max)) = 2147483000 \<and>
     sint (score (game w')) = - 2147483296 \<and>
     score (game w') \<noteq> INT_MAX"
proof -
  have len: "length (board (game near_int_max)) = 20"
    "length (board_colors (game near_int_max)) = 20"
    by (simp_all add: near_int_max_def init_game_state_def)
  have full: "filter row_full (board (game near_int_max)) = [[1,1,1,1,1,1,1,1,1,1]]"
    by (simp add: near_int_max_def init_game_state_def row_full_def c_consts filter_replicate
        list_all_iff)
  have fields: "score (game near_int_max) = 2147483000" "level (game near_int_max) = 10"
    by (simp_all add: near_int_max_def init_game_state_def)
  show ?thesis
    by (simp add: clear_lines_eq [OF len] Let_def full fields scmp INT_MAX_def)
qed

section \<open>The square on the empty board\<close>

lemma spawned_square_simps:
  "current_piece (spawned_square r y) = [(0,0), (0,1), (1,0), (1,1)]"
  "current_x (spawned_square r y) = 3"
  "current_y (spawned_square r y) = y"
  "board (spawned_square r y) = replicate 20 (replicate 10 0)"
  "\<not> paused (spawned_square r y)"
  "\<not> game_over (spawned_square r y)"
  by (simp_all add: spawned_square_def square_at_simps) (simp_all add: square_at_def init_game_state_def)

lemma row_in_range:
  assumes "n < 18"
  shows "sint (of_nat n + 1 :: cint) = int n + 1" "sint (2 + of_nat n :: cint) = int n + 2"
    "unat (of_nat n + 1 :: cint) = n + 1" "unat (2 + of_nat n :: cint) = n + 2"
proof -
  have "(of_nat n + 1 :: cint) = of_nat (n + 1)" "(2 + of_nat n :: cint) = of_nat (n + 2)"
    by simp_all
  with assms show "sint (of_nat n + 1 :: cint) = int n + 1"
    "sint (2 + of_nat n :: cint) = int n + 2"
    "unat (of_nat n + 1 :: cint) = n + 1" "unat (2 + of_nat n :: cint) = n + 2"
    by (simp_all only: sint_of_small_nat unat_of_nat) (simp_all add: sint_of_small_nat)
qed

lemma square_can_descend: "n < 18 \<Longrightarrow> can_move (spawned_square r (of_nat n)) 0 1"
  by (simp add: can_move_def cell_blocked_def spawned_square_simps scmp c_consts row_in_range
      Let_def)

lemma square_rests_at_18: "\<not> can_move (spawned_square r 18) 0 1"
  by (simp add: can_move_def cell_blocked_def spawned_square_simps scmp c_consts)

lemma square_down:
  "n < 18 \<Longrightarrow> key_press (Some GDK_KEY_Down) (spawned_square r (of_nat n)) =
     spawned_square r (of_nat (Suc n))"
  by (simp add: key_press_def spawned_square_simps square_can_descend)
    (simp add: spawned_square_def square_at_def)

lemma square_down_iter:
  "n \<le> 18 \<Longrightarrow> (key_press (Some GDK_KEY_Down) ^^ n) (spawned_square r 0) =
     spawned_square r (of_nat n)"
  by (induction n) (simp_all add: square_down)

text \<open>
  Claim C9 says that the square spawns with its anchor at \<open>(4, 0)\<close>.
  \<^verbatim>\<open>new_piece\<close> sets \<^verbatim>\<open>current_x = BOARD_WIDTH / 2 - 2\<close>, which is 3.
\<close>

theorem square_spawns_at_column_4_counterexample:
  "new_piece 0 init_game_state = Inr (spawned_square 0 0) \<and>
   current_x (spawned_square 0 0) = 3 \<and> current_x (spawned_square 0 0) \<noteq> 4"
  by (simp add: new_piece_def init_game_state_def spawned_square_def square_at_def
      tetrominoes_def c_consts scmp)

text \<open>
  Claim C9, amended.  On the empty board the square spawns with its anchor at \<open>(3, 0)\<close>;
  from there each of the first 18 \<^verbatim>\<open>Down\<close> key presses moves it one row down, and at
  anchor height 18 \<open>can_move 0 1\<close> is false and the key press changes nothing: the piece
  occupies rows 18 and 19.
\<close>

theorem square_descends_to_row_18:
  "new_piece r init_game_state = Inr (spawned_square r 0) \<and>
   current_x (spawned_square r 0) = 3 \<and> current_y (spawned_square r 0) = 0 \<and>
   (\<forall>n\<le>18. (key_press (Some GDK_KEY_Down) ^^ n) (spawned_square r 0) =
               spawned_square r (of_nat n)) \<and>
   (\<forall>n<18. can_move (spawned_square r (of_nat n)) 0 1) \<and>
   \<not> can_move (spawned_square r 18) 0 1 \<and>
   key_press (Some GDK_KEY_Down) (spawned_square r 18) = spawned_square r 18 \<and>
   map (\<lambda>off. current_y (spawned_square r 18) + snd off) (current_piece (spawned_square r 18))
     = [18, 19, 18, 19]"
proof -
  have "new_piece r init_game_state = Inr (spawned_square r 0)"
    by (simp add: new_piece_def init_game_state_def spawned_square_def square_at_def
        tetrominoes_def c_consts scmp)
  moreover have "key_press (Some GDK_KEY_Down) (spawned_square r 18) = spawned_square r 18"
    by (simp add: key_press_def spawned_square_simps square_rests_at_18)
  ultimately show ?thesis
    by (simp add: square_down_iter square_can_descend square_rests_at_18 spawned_square_simps)
qed

theorem square_descends_to_row_18_witness:
  "(key_press (Some GDK_KEY_Down) ^^ 18) (spawned_square 4 0) = spawned_square 4 18 \<and>
   can_move (spawned_square 4 17) 0 1"
proof -
  have "(18::nat) \<le> 18" "(17::nat) < 18" by simp_all
  with square_descends_to_row_18 [of 4]
  have "(key_press (Some GDK_KEY_Down) ^^ 18) (spawned_square 4 0) = spawned_square 4 (of_nat 18)"
    and "can_move (spawned_square 4 (of_nat 17)) 0 1"
    by blast+
  then show ?thesis by simp
qed


section \<open>Rotation\<close>

lemma rotate_four: "(rotate_piece ^^ 4) p = p"
  by (simp add: numeral_eq_Suc rotate_piece_def comp_def)

lemma key_up_playing:
  assumes "\<not> paused g" "\<not> game_over g"
  shows "key_press (Some GDK_KEY_Up) g =
     (if can_move (g\<lparr>current_piece := rotate_piece (current_piece g)\<rparr>) 0 0
      then g\<lparr>current_piece := rotate_piece (current_piece g)\<rparr> else g)"
  using assms by (simp add: key_press_def Let_def)

lemma key_up_iter:
  assumes "\<not> paused g" "\<not> game_over g"
    and "\<forall>k<n. can_move (g\<lparr>current_piece := (rotate_piece ^^ Suc k) (current_piece g)\<rparr>) 0 0"
  shows "(key_press (Some GDK_KEY_Up) ^^ n) g = g\<lparr>current_piece := (rotate_piece ^^ n) (current_piece g)\<rparr>"
  using assms(3)
proof (induction n)
  case 0
  show ?case by simp
next
  case (Suc n)
  then have "(key_press (Some GDK_KEY_Up) ^^ n) g = g\<lparr>current_piece := (rotate_piece ^^ n) (current_piece g)\<rparr>"
    by simp
  moreover have "can_move (g\<lparr>current_piece := rotate_piece ((rotate_piece ^^ n) (current_piece g))\<rparr>) 0 0"
    using Suc.prems by simp
  ultimately show ?case
    using assms(1,2) by (simp add: key_up_playing)
qed

lemma t_piece_simps:
  "current_piece (t_piece_at x y) = [(0,0), (0,1), (0,2), (1,1)]"
  "current_x (t_piece_at x y) = x"
  "current_y (t_piece_at x y) = y"
  "board (t_piece_at x y) = replicate 20 (replicate 10 0)"
  "\<not> paused (t_piece_at x y)"
  "\<not> game_over (t_piece_at x y)"
  by (simp_all add: t_piece_at_def init_game_state_def tetrominoes_def c_consts)

lemma funpow_2: "(f ^^ 2) x = f (f x)"
  by (simp add: numeral_2_eq_2)

lemma funpow_3: "(f ^^ 3) x = f (f (f x))"
  by (simp add: numeral_3_eq_3)

text \<open>
  Claim C5.  While the game is neither paused nor over, the \<^verbatim>\<open>Up\<close> key turns every
  offset \<open>(x, y)\<close> of the active piece into \<open>(y, -x)\<close>, keeps the turned offsets if
  \<open>can_move 0 0\<close> holds for them and restores the offsets it started from otherwise.
  Four rotations that all succeed give back the original state.  If the first \<open>n\<close>
  rotations succeed and the next one is blocked, the piece is left with the offsets of
  the \<open>n\<close> successful rotations.
\<close>

theorem rotation_command:
  assumes "\<not> paused g" and "\<not> game_over g"
  shows "rotate_piece (current_piece g) = map (\<lambda>(x, y). (y, - x)) (current_piece g) \<and>
    key_press (Some GDK_KEY_Up) g =
      (if can_move (g\<lparr>current_piece := rotate_piece (current_piece g)\<rparr>) 0 0
       then g\<lparr>current_piece := rotate_piece (current_piece g)\<rparr> else g) \<and>
    ((\<forall>k<4. can_move (g\<lparr>current_piece := (rotate_piece ^^ Suc k) (current_piece g)\<rparr>) 0 0) \<longrightarrow>
       (key_press (Some GDK_KEY_Up) ^^ 4) g = g) \<and>
    ((\<forall>k<n. can_move (g\<lparr>current_piece := (rotate_piece ^^ Suc k) (current_piece g)\<rparr>) 0 0) \<and>
     \<not> can_move (g\<lparr>current_piece := (rotate_piece ^^ Suc n) (current_piece g)\<rparr>) 0 0 \<longrightarrow>
       (key_press (Some GDK_KEY_Up) ^^ Suc n) g =
         g\<lparr>current_piece := (rotate_piece ^^ n) (current_piece g)\<rparr>)"
proof -
  have "rotate_piece (current_piece g) = map (\<lambda>(x, y). (y, - x)) (current_piece g)"
    by (simp add: rotate_piece_def case_prod_unfold)
  moreover have "(key_press (Some GDK_KEY_Up) ^^ 4) g = g"
    if "\<forall>k<4. can_move (g\<lparr>current_piece := (rotate_piece ^^ Suc k) (current_piece g)\<rparr>) 0 0"
    using key_up_iter [OF assms that] by (simp only: rotate_four) simp
  moreover have "(key_press (Some GDK_KEY_Up) ^^ Suc n) g =
         g\<lparr>current_piece := (rotate_piece ^^ n) (current_piece g)\<rparr>"
    if "\<forall>k<n. can_move (g\<lparr>current_piece := (rotate_piece ^^ Suc k) (current_piece g)\<rparr>) 0 0"
      and "\<not> can_move (g\<lparr>current_piece := (rotate_piece ^^ Suc n) (current_piece g)\<rparr>) 0 0"
    using key_up_iter [OF assms that(1)] that(2) assms by (simp add: key_up_playing)
  ultimately show ?thesis
    using key_up_playing [OF assms] by blast
qed

theorem rotation_command_witness:
  "(key_press (Some GDK_KEY_Up) ^^ 4) (t_piece_at 3 5) = t_piece_at 3 5 \<and>
   (key_press (Some GDK_KEY_Up) ^^ 2) (t_piece_at 0 5) =
     (t_piece_at 0 5)\<lparr>current_piece := [(0,0), (1,0), (2,0), (1,- 1)]\<rparr>"
proof -
  have four: "\<forall>k<4. can_move ((t_piece_at 3 5)\<lparr>current_piece := (rotate_piece ^^ Suc k) (current_piece (t_piece_at 3 5))\<rparr>) 0 0"
    unfolding all_less_4
    by (simp add: rotate_four funpow_2 funpow_3 rotate_piece_def t_piece_simps can_move_def cell_blocked_def
        scmp c_consts)
  have one: "\<forall>k<1. can_move ((t_piece_at 0 5)\<lparr>current_piece := (rotate_piece ^^ Suc k) (current_piece (t_piece_at 0 5))\<rparr>) 0 0"
    by (simp add: rotate_piece_def t_piece_simps can_move_def cell_blocked_def scmp c_consts)
  have two: "\<not> can_move ((t_piece_at 0 5)\<lparr>current_piece := (rotate_piece ^^ Suc 1) (current_piece (t_piece_at 0 5))\<rparr>) 0 0"
    by (simp add: rotate_piece_def t_piece_simps can_move_def cell_blocked_def scmp c_consts)
  have "(key_press (Some GDK_KEY_Up) ^^ 4) (t_piece_at 3 5) = t_piece_at 3 5"
    using rotation_command [OF t_piece_simps(5,6), of 3 5] four by blast
  moreover have "(key_press (Some GDK_KEY_Up) ^^ Suc 1) (t_piece_at 0 5) =
     (t_piece_at 0 5)\<lparr>current_piece := (rotate_piece ^^ 1) (current_piece (t_piece_at 0 5))\<rparr>"
    using rotation_command [OF t_piece_simps(5,6), of 0 5 1] one two by blast
  ultimately show ?thesis
    by (simp add: rotate_piece_def t_piece_simps funpow_2)
qed

section \<open>Paused and finished games\<close>

text \<open>
  The callback returns \<^verbatim>\<open>FALSE\<close> only on a tick that starts in a running game and
  ends it.
\<close>

lemma game_loop_false_only_at_game_over:
  assumes "game_loop r w = Inr (False, w')"
  shows "\<not> paused (game w) \<and> \<not> game_over (game w) \<and> game_over (game w')"
  using assms
  by (auto simp: game_loop_def Let_def split: if_splits sum.splits)

text \<open>
  Claim C7 says that a tick in the game-over state reports game over.  Once the flag is
  set, the first line of \<^verbatim>\<open>game_loop\<close> returns \<^verbatim>\<open>TRUE\<close>, the same value as when
  paused: so it does in a game-over state with the T piece in mid-air, and in
  \<open>topped_out_after\<close>, the state in which a tick has just ended the game.
\<close>

theorem tick_in_game_over_counterexample:
  "game_over (game (halted_world False True)) \<and>
   game_loop 0 (halted_world False True) = Inr (True, halted_world False True) \<and>
   game_loop 0 (halted_world False True) \<noteq> Inr (False, halted_world False True) \<and>
   game_loop 0 (halted_world True False) = Inr (True, halted_world True False) \<and>
   game_over (game topped_out_after) \<and>
   game_loop 0 topped_out_after = Inr (True, topped_out_after) \<and>
   game_loop 0 topped_out_after \<noteq> Inr (False, topped_out_after)"
  by (simp add: game_loop_def halted_world_def topped_out_after_def)

text \<open>
  Claim C7, amended.  When the game is paused or over, the movement and rotation keys
  leave the whole game state unchanged, and a tick is a no-op that returns \<^verbatim>\<open>TRUE\<close>
  in both states, so the timeout that fired stays registered.
\<close>

theorem halted_states_ignore_input:
  assumes "paused (game w) \<or> game_over (game w)"
  shows "(\<forall>k \<in> {GDK_KEY_Left, GDK_KEY_Right, GDK_KEY_Down, GDK_KEY_Up}.
            key_press (Some k) (game w) = game w) \<and>
         game_loop r w = Inr (True, w) \<and>
         timeout_dispatch src r w = Inr w"
  using assms by (auto simp: key_press_def game_loop_def timeout_dispatch_def)

theorem halted_states_ignore_input_witness:
  "key_press (Some GDK_KEY_Left) (game (halted_world True False)) = game (halted_world True False) \<and>
   key_press (Some GDK_KEY_Up) (game (halted_world False True)) = game (halted_world False True) \<and>
   timeout_dispatch 1 3 (halted_world True False) = Inr (halted_world True False) \<and>
   game_loop 3 (halted_world False True) = Inr (True, halted_world False True)"
proof -
  have p: "paused (game (halted_world True False)) \<or> game_over (game (halted_world True False))"
    and o: "paused (game (halted_world False True)) \<or> game_over (game (halted_world False True))"
    by (simp_all add: halted_world_def)
  show ?thesis
    using halted_states_ignore_input [OF p, of 3 1] halted_states_ignore_input [OF o, of 3 1]
    by simp
qed


section \<open>The invariant holds in every reachable state\<close>

lemma cells_ok_iff:
  "cells_ok g = (length (board g) = 20 \<and> list_all2 row_ok (board g) (board_colors g))"
  by (auto simp: cells_ok_def row_ok_def list_all2_conv_all_nth)

lemma type_color:
  assumes "0 \<le>s t" "t <s (7::cint)"
  shows "t + 1 \<noteq> 0" "0 \<le>s t + 1" "t + 1 \<le>s 7"
proof -
  from assms have t: "0 \<le> sint t" "sint t < 7" by (simp_all add: scmp)
  then have s: "sint (t + 1) = sint t + 1"
    by (simp add: sint_word_ariths signed_take_bit_int_eq_self)
  from s t show "0 \<le>s t + 1" "t + 1 \<le>s 7" by (simp_all add: scmp)
  from s t have "sint (t + 1) \<noteq> sint (0::cint)" by simp
  then show "t + 1 \<noteq> 0" by metis
qed

lemma uint_eq_sint:
  assumes "0 \<le>s (a::cint)"
  shows "uint a = sint a"
proof -
  from assms have nn: "0 \<le> sint a" by (simp add: scmp)
  have "uint a = take_bit LENGTH(32) (sint a)"
    using uint_word_of_int_eq [of "sint a", where ?'a = 32] by simp
  moreover have "sint a < 2 ^ 32"
    using sint_lt [of a] by simp
  ultimately show ?thesis
    using nn by (simp add: take_bit_int_eq_self)
qed

lemma unat_less_20: "0 \<le>s (a::cint) \<Longrightarrow> a <s 20 \<Longrightarrow> unat a < 20"
proof -
  assume a: "0 \<le>s a" "a <s 20"
  have "int (unat a) = uint a" by simp
  with uint_eq_sint [OF a(1)] a(2) have "int (unat a) < 20" by (simp add: scmp)
  then show ?thesis by linarith
qed

lemma unat_less_10: "0 \<le>s (a::cint) \<Longrightarrow> a <s 10 \<Longrightarrow> unat a < 10"
proof -
  assume a: "0 \<le>s a" "a <s 10"
  have "int (unat a) = uint a" by simp
  with uint_eq_sint [OF a(1)] a(2) have "int (unat a) < 10" by (simp add: scmp)
  then show ?thesis by linarith
qed

lemma land_cell_ok:
  assumes "cells_ok g" "0 \<le>s current_type g" "current_type g <s 7"
  shows "cells_ok (land_cell g off)"
proof (cases "0 \<le>s current_y g + snd off \<and> 0 \<le>s current_x g + fst off \<and>
    current_x g + fst off <s BOARD_WIDTH \<and> current_y g + snd off <s BOARD_HEIGHT")
  case False
  then show ?thesis using assms(1) by (auto simp: land_cell_def Let_def)
next
  case True
  let ?x = "unat (current_x g + fst off)" and ?y = "unat (current_y g + snd off)"
  from True have xy: "?x < 10" "?y < 20"
    by (simp_all add: unat_less_10 unat_less_20 c_consts)
  have g': "land_cell g off =
      g\<lparr>board := (board g)[?y := (board g ! ?y)[?x := 1]],
        board_colors := (board_colors g)[?y := (board_colors g ! ?y)[?x := current_type g + 1]]\<rparr>"
    using True by (simp add: land_cell_def Let_def)
  have new: "cell_ok 1 (current_type g + 1)"
    using type_color [OF assms(2,3)] by (simp add: cell_ok_def)
  show ?thesis
    unfolding g' using assms(1) xy new
    by (auto simp: cells_ok_def nth_list_update)
qed

lemma land_cell_fields:
  "current_type (land_cell g off) = current_type g"
  "next_type (land_cell g off) = next_type g"
  "level (land_cell g off) = level g"
  "current_x (land_cell g off) = current_x g"
  "current_y (land_cell g off) = current_y g"
  by (simp_all add: land_cell_def Let_def)

lemma land_cells_ok:
  "cells_ok g \<Longrightarrow> 0 \<le>s current_type g \<Longrightarrow> current_type g <s 7 \<Longrightarrow> cells_ok (land_cells g p)"
  by (induction p arbitrary: g) (simp_all add: land_cell_ok land_cell_fields)

lemma land_cells_fields:
  "current_type (land_cells g p) = current_type g"
  "next_type (land_cells g p) = next_type g"
  "level (land_cells g p) = level g"
  by (induction p arbitrary: g) (simp_all add: land_cell_fields)

lemma land_piece_ok:
  "state_ok g \<Longrightarrow> state_ok (land_piece g)"
  by (simp add: state_ok_def land_piece_def land_cells_ok land_cells_fields types_ok_def level_ok_def)

lemma empty_row_ok: "row_ok empty_row empty_row"
  by (simp add: row_ok_def empty_row_def c_consts list_all2_conv_all_nth cell_ok_def scmp)

lemma kept_rows_ok:
  "list_all2 row_ok b c \<Longrightarrow> list_all2 row_ok (filter (\<lambda>r. \<not> row_full r) b) (kept_colors b c)"
  by (induction rule: list_all2_induct) (simp_all add: kept_colors_def)

lemma cleared_ok:
  assumes "length b = 20" "list_all2 row_ok b c"
  shows "length (replicate (length (filter row_full b)) empty_row @ filter (\<lambda>r. \<not> row_full r) b) = 20"
    and "list_all2 row_ok
          (replicate (length (filter row_full b)) empty_row @ filter (\<lambda>r. \<not> row_full r) b)
          (replicate (length (filter row_full b)) empty_row @ kept_colors b c)"
proof -
  show "length (replicate (length (filter row_full b)) empty_row @ filter (\<lambda>r. \<not> row_full r) b) = 20"
    using assms(1) sum_length_filter_compl [of row_full b] by simp
  have "list_all2 row_ok (replicate n empty_row) (replicate n empty_row)" for n
    by (simp add: list_all2_conv_all_nth empty_row_ok)
  then show "list_all2 row_ok
          (replicate (length (filter row_full b)) empty_row @ filter (\<lambda>r. \<not> row_full r) b)
          (replicate (length (filter row_full b)) empty_row @ kept_colors b c)"
    using kept_rows_ok [OF assms(2)] by (intro list_all2_appendI)
qed


lemma level_succ:
  assumes "1 \<le>s l" "l <s (10::cint)"
  shows "l + 1 \<noteq> 0" "1 \<le>s l + 1" "l + 1 \<le>s 10"
proof -
  from assms have l: "1 \<le> sint l" "sint l < 10" by (simp_all add: scmp)
  from sint_succ [OF assms(2)] l show "1 \<le>s l + 1" "l + 1 \<le>s 10"
    by (simp_all add: scmp)
  from sint_succ [OF assms(2)] l have "sint (l + 1) \<noteq> sint (0::cint)" by simp
  then show "l + 1 \<noteq> 0" by metis
qed

lemma clear_lines_ok:
  assumes "state_ok (game w)"
  shows "\<exists>w'. clear_lines w = Inr w' \<and> state_ok (game w')"
proof -
  let ?g = "game w"
  from assms have c: "cells_ok ?g" and t: "types_ok ?g" and l: "level_ok ?g"
    by (simp_all add: state_ok_def)
  from c have len: "length (board ?g) = 20" "length (board_colors ?g) = 20"
    by (simp_all add: cells_ok_def)
  from c have rows: "list_all2 row_ok (board ?g) (board_colors ?g)"
    by (simp add: cells_ok_iff)
  note cl = cleared_ok [OF len(1) rows]
  show ?thesis
  proof (cases "level ?g <s 10")
    case True
    with l have "level ?g + 1 \<noteq> 0" "1 \<le>s level ?g + 1" "level ?g + 1 \<le>s 10"
      by (simp_all add: level_ok_def level_succ)
    then show ?thesis
      using cl t l
      by (simp add: clear_lines_eq [OF len] Let_def state_ok_def cells_ok_iff types_ok_def
          level_ok_def)
  next
    case False
    then show ?thesis
      using cl t l
      by (simp add: clear_lines_eq [OF len] Let_def state_ok_def cells_ok_iff types_ok_def
          level_ok_def)
  qed
qed

lemma new_piece_ok:
  assumes "state_ok g" "0 \<le>s r" "r <s 7"
  shows "\<exists>g'. new_piece r g = Inr g' \<and> state_ok g'"
  using assms
  by (simp add: new_piece_def Let_def state_ok_def cells_ok_def types_ok_def level_ok_def)

lemma key_press_fields:
  "board (key_press event g) = board g"
  "board_colors (key_press event g) = board_colors g"
  "current_type (key_press event g) = current_type g"
  "next_type (key_press event g) = next_type g"
  "level (key_press event g) = level g"
  "score (key_press event g) = score g"
  by (simp_all add: key_press_def toggle_pause_def Let_def split: option.splits keyval.splits)

lemma key_press_ok: "state_ok g \<Longrightarrow> state_ok (key_press event g)"
  by (simp add: state_ok_def cells_ok_def types_ok_def level_ok_def key_press_fields)

lemma toggle_pause_ok: "state_ok g \<Longrightarrow> state_ok (toggle_pause g)"
  by (simp add: state_ok_def cells_ok_def types_ok_def level_ok_def toggle_pause_def)

lemma game_loop_ok:
  assumes "state_ok (game w)" "0 \<le>s r" "r <s 7"
  shows "\<exists>c w'. game_loop r w = Inr (c, w') \<and> state_ok (game w')"
proof (cases "paused (game w) \<or> game_over (game w)")
  case True
  then show ?thesis using assms(1) by (auto simp: game_loop_def)
next
  case halted: False
  show ?thesis
  proof (cases "can_move (game w) 0 1")
    case True
    then show ?thesis
      using assms(1) halted
      by (auto simp: game_loop_def Let_def state_ok_def cells_ok_def types_ok_def level_ok_def)
  next
    case False
    have "state_ok (game (w\<lparr>game := land_piece (game w)\<rparr>))"
      using assms(1) by (simp add: land_piece_ok)
    then obtain w1 where w1: "clear_lines (w\<lparr>game := land_piece (game w)\<rparr>) = Inr w1"
      "state_ok (game w1)"
      using clear_lines_ok by blast
    then obtain g2 where g2: "new_piece r (game w1) = Inr g2" "state_ok g2"
      using new_piece_ok assms(2,3) by blast
    then have "state_ok (g2\<lparr>game_over := True\<rparr>)"
      by (simp add: state_ok_def cells_ok_def types_ok_def level_ok_def)
    then show ?thesis
      using halted False w1 g2 by (auto simp: game_loop_def Let_def)
  qed
qed

lemma timeout_dispatch_ok:
  assumes "state_ok (game w)" "0 \<le>s r" "r <s 7"
  shows "\<exists>w'. timeout_dispatch src r w = Inr w' \<and> state_ok (game w')"
proof -
  from game_loop_ok [OF assms] obtain c w1 where "game_loop r w = Inr (c, w1)" "state_ok (game w1)"
    by blast
  then show ?thesis using assms(1) by (simp add: timeout_dispatch_def)
qed

lemma init_game_state_ok: "state_ok init_game_state"
  by (simp add: state_ok_def cells_ok_def types_ok_def level_ok_def init_game_state_def c_consts
      cell_ok_def scmp)

lemma start_new_game_ok:
  assumes "0 \<le>s r" "r <s 7"
  shows "\<exists>w'. start_new_game r w = Inr w' \<and> state_ok (game w')"
proof -
  have zero: "timeout_id init_game_state = 0"
    by (simp add: init_game_state_def)
  have "state_ok (init_game_state\<lparr>timeout_id := next_id (glib w)\<rparr>)"
    using init_game_state_ok by (simp add: state_ok_def cells_ok_def types_ok_def level_ok_def)
  from new_piece_ok [OF this assms] obtain g where
    "new_piece r (init_game_state\<lparr>timeout_id := next_id (glib w)\<rparr>) = Inr g" "state_ok g"
    by blast
  then show ?thesis
    by (simp add: start_new_game_def Let_def g_timeout_add_def zero)
qed

lemma main_start_ok:
  assumes "0 \<le>s r0" "r0 <s 7" "0 \<le>s r1" "r1 <s 7"
  shows "\<exists>w. main_start r0 r1 = Inr w \<and> state_ok (game w)"
proof -
  have "state_ok (init_game_state\<lparr>next_type := r0\<rparr>)"
    using assms(1,2)
    by (simp add: state_ok_def cells_ok_def types_ok_def level_ok_def init_game_state_def c_consts
        cell_ok_def scmp)
  from new_piece_ok [OF this assms(3,4)] obtain g where
    "new_piece r1 (init_game_state\<lparr>next_type := r0\<rparr>) = Inr g" "state_ok g" by blast
  then show ?thesis
    by (simp add: main_start_def Let_def g_timeout_add_def state_ok_def cells_ok_def types_ok_def
        level_ok_def)
qed

lemma reachable_state_ok: "reachable w \<Longrightarrow> state_ok (game w)"
proof (induction rule: reachable.induct)
  case (start r0 r1 w)
  then show ?case using main_start_ok [of r0 r1] by auto
next
  case (tick w r src w')
  then show ?case using timeout_dispatch_ok [of w r src] by auto
next
  case (key w event)
  then show ?case by (simp add: key_press_ok)
next
  case (pause_button w)
  then show ?case by (simp add: toggle_pause_ok)
next
  case (new_game_button w r w')
  then show ?case using start_new_game_ok [of r w] by auto
qed


lemma land_cell_committed:
  assumes "cells_ok g"
  shows "committed g (land_cell g off)"
proof (cases "0 \<le>s current_y g + snd off \<and> 0 \<le>s current_x g + fst off \<and>
    current_x g + fst off <s BOARD_WIDTH \<and> current_y g + snd off <s BOARD_HEIGHT")
  case False
  then show ?thesis by (auto simp: land_cell_def Let_def committed_def)
next
  case True
  let ?x = "unat (current_x g + fst off)" and ?y = "unat (current_y g + snd off)"
  have g': "land_cell g off =
      g\<lparr>board := (board g)[?y := (board g ! ?y)[?x := 1]],
        board_colors := (board_colors g)[?y := (board_colors g ! ?y)[?x := current_type g + 1]]\<rparr>"
    using True by (simp add: land_cell_def Let_def)
  from True have xy: "?x < 10" "?y < 20"
    by (simp_all add: unat_less_10 unat_less_20 c_consts)
  show ?thesis
    unfolding g' using assms xy
    by (auto simp: cells_ok_def committed_def nth_list_update)
qed

lemma committed_trans:
  "committed g g1 \<Longrightarrow> committed g1 g2 \<Longrightarrow> current_type g1 = current_type g \<Longrightarrow> committed g g2"
  unfolding committed_def by (metis (no_types, lifting))

lemma land_cells_committed:
  "cells_ok g \<Longrightarrow> 0 \<le>s current_type g \<Longrightarrow> current_type g <s 7 \<Longrightarrow>
   committed g (land_cells g p)"
proof (induction p arbitrary: g)
  case Nil
  show ?case by (simp add: committed_def)
next
  case (Cons off p)
  have "committed (land_cell g off) (land_cells (land_cell g off) p)"
    using Cons.prems by (intro Cons.IH) (simp_all add: land_cell_ok land_cell_fields)
  with land_cell_committed [OF Cons.prems(1), of off] show ?case
    by (simp add: committed_trans land_cell_fields)
qed

lemma clear_lines_cells:
  assumes "cells_ok (game v)" "clear_lines v = Inr v'"
  shows "cells_ok (game v')"
proof -
  from assms(1) have len: "length (board (game v)) = 20" "length (board_colors (game v)) = 20"
    by (simp_all add: cells_ok_def)
  from assms(1) have rows: "list_all2 row_ok (board (game v)) (board_colors (game v))"
    by (simp add: cells_ok_iff)
  note cl = cleared_ok [OF len(1) rows]
  from assms(2) show ?thesis
    using cl by (auto simp: clear_lines_eq [OF len] Let_def cells_ok_iff split: if_splits)
qed


lemma started_world_reachable: "reachable started_world"
proof -
  have "main_start 0 4 = Inr started_world"
    by (simp add: main_start_def new_piece_def init_game_state_def started_world_def
        spawned_square_def square_at_def tetrominoes_def g_timeout_add_def c_consts scmp)
  moreover have "(0::cint) \<le>s 0" "(0::cint) <s 7" "(0::cint) \<le>s 4" "(4::cint) <s 7"
    by (simp_all add: scmp)
  ultimately show ?thesis by (blast intro: reachable.start)
qed

lemma stacked_rows_cells_ok: "cells_ok (game stacked_rows)"
proof -
  have z: "list_all2 row_ok (replicate 16 (replicate 10 0)) (replicate 16 (replicate 10 0))"
    using empty_row_ok by (simp add: list_all2_conv_all_nth empty_row_def c_consts)
  have "list_all2 row_ok
      [[0,0,0,0,1,0,0,0,0,0], [1,1,1,1,1,1,1,1,1,1], [1,1,1,1,1,1,1,1,1,1], [1,1,1,0,0,0,1,1,1,1]]
      [[0,0,0,0,5,0,0,0,0,0], [2,2,2,2,5,5,5,3,3,3], [1,1,4,4,4,2,2,2,2,7], [1,1,4,0,0,0,6,6,7,7]]"
    by (simp add: row_ok_def cell_ok_def scmp)
  with z show ?thesis
    by (simp add: cells_ok_iff stacked_rows_def init_game_state_def list_all2_appendI)
qed

text \<open>
  Claim C8.  In every reachable state each board cell is occupied exactly when its colour
  index is nonzero, the colour index is within \<open>0..7\<close> (\<open>cells_ok\<close>), and the current
  type is within \<open>0..6\<close>.  The reset state satisfies the invariant; \<open>land_piece\<close>
  keeps it and changes a cell only by marking it occupied with colour index
  \<open>current_type + 1\<close>; \<open>clear_lines\<close> keeps it.
\<close>

theorem board_cells_invariant:
  "(reachable w \<longrightarrow>
      cells_ok (game w) \<and> 0 \<le>s current_type (game w) \<and> current_type (game w) <s 7) \<and>
   cells_ok init_game_state \<and>
   (cells_ok g \<and> 0 \<le>s current_type g \<and> current_type g <s 7 \<longrightarrow>
      cells_ok (land_piece g) \<and> committed g (land_piece g)) \<and>
   (cells_ok (game v) \<and> clear_lines v = Inr v' \<longrightarrow> cells_ok (game v'))"
  using reachable_state_ok [of w] init_game_state_ok clear_lines_cells [of v v']
    land_cells_ok [of g "current_piece g"] land_cells_committed [of g "current_piece g"]
  by (auto simp: state_ok_def types_ok_def land_piece_def)

theorem board_cells_invariant_witness:
  "cells_ok (game started_world) \<and> current_type (game started_world) = 0 \<and>
   cells_ok (land_piece (init_game_state\<lparr>current_type := 6\<rparr>)) \<and>
   (\<exists>v'. clear_lines stacked_rows = Inr v' \<and> cells_ok (game v'))"
proof -
  have "state_ok (game stacked_rows)"
    using stacked_rows_cells_ok
    by (simp add: state_ok_def types_ok_def level_ok_def stacked_rows_def init_game_state_def scmp)
  then obtain v' where v': "clear_lines stacked_rows = Inr v'"
    using clear_lines_ok by blast
  have six: "cells_ok (init_game_state\<lparr>current_type := 6\<rparr>) \<and>
      0 \<le>s current_type (init_game_state\<lparr>current_type := 6\<rparr>) \<and>
      current_type (init_game_state\<lparr>current_type := 6\<rparr>) <s 7"
    using init_game_state_ok by (simp add: state_ok_def cells_ok_def scmp)
  have "current_type (game started_world) = 0"
    by (simp add: started_world_def spawned_square_def square_at_def init_game_state_def)
  then show ?thesis
    using board_cells_invariant [of started_world "init_game_state\<lparr>current_type := 6\<rparr>"
        stacked_rows v']
      started_world_reachable six stacked_rows_cells_ok v'
    by blast
qed

section \<open>Level progression\<close>

lemma sint_eqI: "sint (a::cint) = sint b \<Longrightarrow> a = b"
  by (rule signed_word_eqI)

lemma sint_level_threshold:
  assumes "1 \<le>s l" "l \<le>s (10::cint)"
  shows "sint (l * 5000) = sint l * 5000"
proof -
  from assms have "1 \<le> sint l" "sint l \<le> 10" by (simp_all add: scmp)
  then show ?thesis
    by (simp add: sint_word_ariths signed_take_bit_int_eq_self)
qed

lemma land_piece_level: "level (land_piece g) = level g"
  by (simp add: land_piece_def land_cells_fields)

text \<open>
  Claim C6.  The level is within \<open>1..10\<close> in every reachable state; key presses and the
  commit of a piece leave it alone.  A call of \<open>clear_lines\<close> raises it, by one,
  exactly when the updated score is at least \<open>level * 5000\<close> and the level is below 10.
  Right after a change the tick period \<open>game_speed\<close> is \<open>500 / level\<close> for the new
  level, the old timeout is removed and one timeout with the new period is registered.
\<close>

theorem level_up_rule:
  "(reachable v \<longrightarrow> 1 \<le> sint (level (game v)) \<and> sint (level (game v)) \<le> 10) \<and>
   level (key_press event g) = level g \<and> level (land_piece g) = level g \<and>
   (length (board (game w)) = 20 \<and> length (board_colors (game w)) = 20 \<and>
    1 \<le>s level (game w) \<and> level (game w) \<le>s 10 \<longrightarrow>
      (\<exists>w'. clear_lines w = Inr w' \<and>
         level (game w') =
           (if sint (level (game w)) * 5000 \<le> sint (score (game w')) \<and> sint (level (game w)) < 10
            then level (game w) + 1 else level (game w)) \<and>
         1 \<le> sint (level (game w')) \<and> sint (level (game w')) \<le> 10 \<and>
         (level (game w') \<noteq> level (game w) \<longrightarrow>
            sint (level (game w')) = sint (level (game w)) + 1 \<and>
            sint (game_speed (game w')) = 500 div sint (level (game w')) \<and>
            timeout_id (game w') = next_id (glib w) \<and>
            timeouts (glib w') =
              filter (\<lambda>src. fst src \<noteq> timeout_id (game w)) (timeouts (glib w))
                @ [(timeout_id (game w'), game_speed (game w'))]) \<and>
         (level (game w') = level (game w) \<longrightarrow>
            game_speed (game w') = game_speed (game w) \<and> glib w' = glib w)))"
proof -
  have "1 \<le> sint (level (game v)) \<and> sint (level (game v)) \<le> 10" if "reachable v"
    using reachable_state_ok [OF that] by (simp add: state_ok_def level_ok_def scmp)
  moreover have "\<exists>w'. clear_lines w = Inr w' \<and>
         level (game w') =
           (if sint (level (game w)) * 5000 \<le> sint (score (game w')) \<and> sint (level (game w)) < 10
            then level (game w) + 1 else level (game w)) \<and>
         1 \<le> sint (level (game w')) \<and> sint (level (game w')) \<le> 10 \<and>
         (level (game w') \<noteq> level (game w) \<longrightarrow>
            sint (level (game w')) = sint (level (game w)) + 1 \<and>
            sint (game_speed (game w')) = 500 div sint (level (game w')) \<and>
            timeout_id (game w') = next_id (glib w) \<and>
            timeouts (glib w') =
              filter (\<lambda>src. fst src \<noteq> timeout_id (game w)) (timeouts (glib w))
                @ [(timeout_id (game w'), game_speed (game w'))]) \<and>
         (level (game w') = level (game w) \<longrightarrow>
            game_speed (game w') = game_speed (game w) \<and> glib w' = glib w)"
    if len: "length (board (game w)) = 20" "length (board_colors (game w)) = 20"
      and lv: "1 \<le>s level (game w)" "level (game w) \<le>s 10"
  proof (cases "level (game w) <s 10")
    case True
    note up = level_succ [OF lv(1) True]
    have ne: "level (game w) + 1 \<noteq> level (game w)" by simp
    show ?thesis
      using True lv up ne sint_succ [OF True] c_div_500 [OF up(2,3)]
      by (simp add: clear_lines_eq [OF len] Let_def sint_level_threshold scmp)
  next
    case False
    then show ?thesis
      using lv by (simp add: clear_lines_eq [OF len] Let_def scmp)
  qed
  ultimately show ?thesis
    by (simp add: key_press_fields land_piece_level)
qed

theorem level_up_rule_witness:
  "1 \<le> sint (level (game started_world)) \<and>
   (\<exists>w'. clear_lines stacked_rows = Inr w' \<and> level (game w') = 2 \<and>
      sint (game_speed (game w')) = 250 \<and> timeouts (glib w') = [(2, 250)])"
proof -
  have lv: "level (game stacked_rows) = 1" "score (game stacked_rows) = 19800"
    "timeout_id (game stacked_rows) = 1" "timeouts (glib stacked_rows) = [(1, 500)]"
    "next_id (glib stacked_rows) = 2"
    by (simp_all add: stacked_rows_def init_game_state_def)
  have pre: "length (board (game stacked_rows)) = 20 \<and>
      length (board_colors (game stacked_rows)) = 20 \<and>
      1 \<le>s level (game stacked_rows) \<and> level (game stacked_rows) \<le>s 10"
    by (simp add: stacked_rows_simps lv scmp)
  from level_up_rule [of started_world "Some GDK_KEY_Left" init_game_state stacked_rows] pre
    started_world_reachable
  obtain w' where w': "clear_lines stacked_rows = Inr w'"
    and start: "1 \<le> sint (level (game started_world))"
    and rule: "level (game w') =
           (if sint (level (game stacked_rows)) * 5000 \<le> sint (score (game w')) \<and>
               sint (level (game stacked_rows)) < 10
            then level (game stacked_rows) + 1 else level (game stacked_rows))"
    and change: "level (game w') \<noteq> level (game stacked_rows) \<longrightarrow>
            sint (level (game w')) = sint (level (game stacked_rows)) + 1 \<and>
            sint (game_speed (game w')) = 500 div sint (level (game w')) \<and>
            timeout_id (game w') = next_id (glib stacked_rows) \<and>
            timeouts (glib w') =
              filter (\<lambda>src. fst src \<noteq> timeout_id (game stacked_rows)) (timeouts (glib stacked_rows))
                @ [(timeout_id (game w'), game_speed (game w'))]"
    by blast
  have sc: "score (game w') = 20000"
    using w' by (auto simp: clear_lines_eq [OF stacked_rows_simps(1,2)] Let_def stacked_rows_simps
        lv scmp split: if_splits)
  from rule sc have l2: "level (game w') = 2" by (simp add: lv)
  with change have "sint (game_speed (game w')) = 250 \<and>
      timeouts (glib w') = [(2, game_speed (game w'))]"
    by (simp add: lv)
  moreover from this have "game_speed (game w') = 250"
    by (intro sint_eqI) simp
  ultimately show ?thesis using w' l2 start by auto
qed


section \<open>The landing tick\<close>

lemma land_piece_fields:
  "next_type (land_piece g) = next_type g"
  "current_type (land_piece g) = current_type g"
  "score (land_piece g) = score g"
  "timeout_id (land_piece g) = timeout_id g"
proof -
  have "next_type (land_cells g p) = next_type g \<and> current_type (land_cells g p) = current_type g \<and>
      score (land_cells g p) = score g \<and> timeout_id (land_cells g p) = timeout_id g" for p
    by (induction p arbitrary: g) (simp_all add: land_cell_def Let_def)
  then show "next_type (land_piece g) = next_type g"
    "current_type (land_piece g) = current_type g"
    "score (land_piece g) = score g"
    "timeout_id (land_piece g) = timeout_id g"
    by (simp_all add: land_piece_def)
qed

lemma clear_lines_next_type:
  assumes "length (board (game w)) = 20" "length (board_colors (game w)) = 20"
    and "clear_lines w = Inr w'"
  shows "next_type (game w') = next_type (game w)"
  using assms(3) by (auto simp: clear_lines_eq [OF assms(1,2)] Let_def split: if_splits)

lemma landing_tick:
  assumes "\<not> paused (game w)" "\<not> game_over (game w)" "\<not> can_move (game w) 0 1"
    and "state_ok (game w)" "0 \<le>s r" "r <s 7"
  shows "\<exists>w1 g2. clear_lines (w\<lparr>game := land_piece (game w)\<rparr>) = Inr w1 \<and>
      new_piece r (game w1) = Inr g2 \<and>
      current_type g2 = next_type (game w) \<and> next_type g2 = r \<and>
      current_x g2 = 3 \<and> current_y g2 = 0 \<and>
      current_piece g2 = tetrominoes ! unat (next_type (game w)) \<and>
      board g2 = board (game w1) \<and>
      game_loop r w =
        Inr (can_move g2 0 0,
             w1\<lparr>game := (if can_move g2 0 0 then g2 else g2\<lparr>game_over := True\<rparr>)\<rparr>)"
proof -
  let ?landed = "w\<lparr>game := land_piece (game w)\<rparr>"
  have ok: "state_ok (game ?landed)"
    using assms(4) by (simp add: land_piece_ok)
  then obtain w1 where w1: "clear_lines ?landed = Inr w1" "state_ok (game w1)"
    using clear_lines_ok by blast
  have len: "length (board (game ?landed)) = 20" "length (board_colors (game ?landed)) = 20"
    using ok by (simp_all add: state_ok_def cells_ok_def)
  have nt: "next_type (game w1) = next_type (game w)"
    using clear_lines_next_type [OF len w1(1)] by (simp add: land_piece_fields)
  from w1(2) have t: "0 \<le>s next_type (game w1)" "next_type (game w1) <s 7"
    by (simp_all add: state_ok_def types_ok_def)
  define g2 where "g2 = (game w1)\<lparr>current_type := next_type (game w1), next_type := r,
      current_x := 3, current_y := 0,
      current_piece := tetrominoes ! unat (next_type (game w1))\<rparr>"
  have g2: "new_piece r (game w1) = Inr g2"
    using t by (simp add: new_piece_def Let_def g2_def c_consts)
  have "game_loop r w =
        Inr (can_move g2 0 0,
             w1\<lparr>game := (if can_move g2 0 0 then g2 else g2\<lparr>game_over := True\<rparr>)\<rparr>)"
    using assms(1-3) w1(1) g2 by (simp add: game_loop_def Let_def)
  moreover have "current_type g2 = next_type (game w)" "next_type g2 = r" "current_x g2 = 3"
    "current_y g2 = 0" "current_piece g2 = tetrominoes ! unat (next_type (game w))"
    "board g2 = board (game w1)"
    by (simp_all add: g2_def nt)
  ultimately show ?thesis using w1(1) g2 by blast
qed

text \<open>
  When the tick that ends the game does not level up and the dispatched source is the only
  one registered, no timeout is left: the return of \<^verbatim>\<open>FALSE\<close> stops the clock.
\<close>

lemma land_piece_flags:
  "game_over (land_piece g) = game_over g" "paused (land_piece g) = paused g"
proof -
  have "game_over (land_cells g p) = game_over g \<and> paused (land_cells g p) = paused g" for p
    by (induction p arbitrary: g) (simp_all add: land_cell_def Let_def)
  then show "game_over (land_piece g) = game_over g" "paused (land_piece g) = paused g"
    by (simp_all add: land_piece_def)
qed

lemma clear_lines_same_level:
  assumes "length (board (game w)) = 20" "length (board_colors (game w)) = 20"
    and "clear_lines w = Inr w'" "level (game w') = level (game w)"
  shows "glib w' = glib w"
  using assms(3,4) by (auto simp: clear_lines_eq [OF assms(1,2)] Let_def split: if_splits)

lemma game_over_tick_stops_clock:
  assumes "\<not> paused (game w)" "\<not> game_over (game w)" "\<not> can_move (game w) 0 1"
    and "state_ok (game w)" "0 \<le>s r" "r <s 7"
    and "timeouts (glib w) = [(src, period)]"
    and "timeout_dispatch src r w = Inr w'"
    and "game_over (game w')" "level (game w') = level (game w)"
  shows "timeouts (glib w') = []"
proof -
  let ?landed = "w\<lparr>game := land_piece (game w)\<rparr>"
  from landing_tick [OF assms(1-6)] obtain w1 g2 where
    w1: "clear_lines ?landed = Inr w1" and g2: "new_piece r (game w1) = Inr g2"
    and loop: "game_loop r w =
        Inr (can_move g2 0 0,
             w1\<lparr>game := (if can_move g2 0 0 then g2 else g2\<lparr>game_over := True\<rparr>)\<rparr>)"
    by blast
  have len: "length (board (game ?landed)) = 20" "length (board_colors (game ?landed)) = 20"
    using land_piece_ok [OF assms(4)] by (simp_all add: state_ok_def cells_ok_def)
  have flags: "game_over g2 = game_over (game w1)" "level g2 = level (game w1)"
    using g2 by (auto simp: new_piece_def Let_def split: if_splits)
  have go1: "\<not> game_over (game w1)"
    using w1 assms(2)
    by (auto simp: clear_lines_eq [OF len] Let_def land_piece_flags split: if_splits)
  show ?thesis
  proof (cases "can_move g2 0 0")
    case True
    with assms(7,8,9) loop flags go1 show ?thesis
      by (auto simp: timeout_dispatch_def)
  next
    case False
    with assms(7,8) loop have w': "w' = w1\<lparr>game := g2\<lparr>game_over := True\<rparr>,
        glib := g_source_remove src (glib w1)\<rparr>"
      by (simp add: timeout_dispatch_def)
    with assms(10) flags have "level (game w1) = level (game ?landed)"
      by (simp add: land_piece_level)
    from clear_lines_same_level [OF len w1 this] have "glib w1 = glib w" by simp
    with w' assms(7) show ?thesis by (simp add: g_source_remove_def)
  qed
qed

lemma topped_out_playing:
  "\<not> paused (game topped_out)" "\<not> game_over (game topped_out)"
  "\<not> can_move (game topped_out) 0 1"
  by (simp_all add: topped_out_def init_game_state_def can_move_def cell_blocked_def
      tetrominoes_def c_consts scmp nth_append)

lemma topped_out_landed:
  "land_piece (game topped_out) =
     (game topped_out)
       \<lparr>board := [[0,0,0,0,0,0,0,0,0,0], [0,0,0,1,1,0,0,0,0,0], [1,1,1,1,1,1,1,1,1,1]]
                   @ replicate 17 [0,1,1,1,1,1,1,1,1,1],
        board_colors := [[0,0,0,0,0,0,0,0,0,0], [0,0,0,1,1,0,0,0,0,0], [2,2,2,1,1,3,3,3,3,3]]
                   @ replicate 17 [0,5,5,5,5,6,6,6,6,7]\<rparr>"
  by (simp add: topped_out_def init_game_state_def land_piece_def land_cell_def Let_def
      tetrominoes_def c_consts scmp nth_append list_update_append)


lemma replicate_10_zero: "replicate 10 (0::cint) = [0,0,0,0,0,0,0,0,0,0]"
  by (simp add: numeral_eq_Suc)

lemma topped_out_tick:
  "game_loop 2 topped_out = Inr (False, topped_out_after)"
proof -
  let ?landed = "topped_out\<lparr>game := land_piece (game topped_out)\<rparr>"
  let ?g = "land_piece (game topped_out)"
  have len: "length (board (game ?landed)) = 20" "length (board_colors (game ?landed)) = 20"
    by (simp_all add: topped_out_landed)
  have full: "filter row_full (board ?g) = [[1,1,1,1,1,1,1,1,1,1]]"
    by (simp add: topped_out_landed row_full_def c_consts filter_replicate)
  have kept: "filter (\<lambda>r. \<not> row_full r) (board ?g) =
      [[0,0,0,0,0,0,0,0,0,0], [0,0,0,1,1,0,0,0,0,0]] @ replicate 17 [0,1,1,1,1,1,1,1,1,1]"
    by (simp add: topped_out_landed row_full_def c_consts filter_replicate)
  have colors: "kept_colors (board ?g) (board_colors ?g) =
      [[0,0,0,0,0,0,0,0,0,0], [0,0,0,1,1,0,0,0,0,0]] @ replicate 17 [0,5,5,5,5,6,6,6,6,7]"
    by (simp add: topped_out_landed kept_colors_def row_full_def c_consts zip_replicate
        filter_replicate)
  have fields: "score ?g = 4900" "level ?g = 1"
    "timeout_id ?g = 1" "glib topped_out = \<lparr>timeouts = [(1, 500)], next_id = 2\<rparr>"
    "next_type ?g = 1"
    unfolding topped_out_landed by (simp_all add: topped_out_def init_game_state_def)
  have cleared: "clear_lines ?landed =
      Inr \<lparr>game = ?g
             \<lparr>board := [0,0,0,0,0,0,0,0,0,0] # [0,0,0,0,0,0,0,0,0,0] # [0,0,0,1,1,0,0,0,0,0]
                         # replicate 17 [0,1,1,1,1,1,1,1,1,1],
              board_colors := [0,0,0,0,0,0,0,0,0,0] # [0,0,0,0,0,0,0,0,0,0] # [0,0,0,1,1,0,0,0,0,0]
                         # replicate 17 [0,5,5,5,5,6,6,6,6,7],
              score := 5000, level := 2, game_speed := 250, timeout_id := 2\<rparr>,
            glib = \<lparr>timeouts = [(2, 250)], next_id = 3\<rparr>\<rparr>"
    by (simp add: clear_lines_eq [OF len] Let_def full kept colors fields empty_row_def c_consts
        scmp c_div_def signed_divide_int_def replicate_10_zero)
  have spawn: "new_piece 2 (?g
             \<lparr>board := [0,0,0,0,0,0,0,0,0,0] # [0,0,0,0,0,0,0,0,0,0] # [0,0,0,1,1,0,0,0,0,0]
                         # replicate 17 [0,1,1,1,1,1,1,1,1,1],
              board_colors := [0,0,0,0,0,0,0,0,0,0] # [0,0,0,0,0,0,0,0,0,0] # [0,0,0,1,1,0,0,0,0,0]
                         # replicate 17 [0,5,5,5,5,6,6,6,6,7],
              score := 5000, level := 2, game_speed := 250, timeout_id := 2\<rparr>) =
        Inr ((game topped_out_after)\<lparr>game_over := False\<rparr>)"
    unfolding topped_out_landed
    by (simp add: new_piece_def Let_def topped_out_def topped_out_after_def init_game_state_def
        c_consts scmp)
  have blocked: "\<not> can_move ((game topped_out_after)\<lparr>game_over := False\<rparr>) 0 0"
    by (simp add: topped_out_after_def init_game_state_def can_move_def cell_blocked_def
        tetrominoes_def c_consts scmp)
  have final: "\<lparr>game = (game topped_out_after)\<lparr>game_over := True\<rparr>,
      glib = \<lparr>timeouts = [(2, 250)], next_id = 3\<rparr>\<rparr> = topped_out_after"
    by (simp add: topped_out_after_def)
  show ?thesis
    using topped_out_playing
    by (simp add: game_loop_def Let_def cleared spawn blocked final)
qed


text \<open>
  Claim C3 (a tick whose piece cannot descend commits it, clears lines, updates score and
  level, spawns the next piece, and ends the game with the clock stopped exactly when the
  spawned piece collides) fails on the code in its clock part.  \<open>landing_tick\<close> above
  gives the sequence and the returned flag as claimed, and \<open>game_over_tick_stops_clock\<close>
  the stopped clock when the level stays.  But \<^verbatim>\<open>FALSE\<close> only destroys
  the timeout source that is being dispatched.  When the same tick has levelled up,
  \<open>clear_lines\<close> has already removed that source and registered a new one, which
  survives the game over: from \<open>topped_out\<close> the game ends with the timeout
  \<open>(2, 250)\<close> still registered.
\<close>

theorem game_over_on_level_up_keeps_clock:
  "game_loop 2 topped_out = Inr (False, topped_out_after) \<and>
   timeout_dispatch 1 2 topped_out = Inr topped_out_after \<and>
   game_over (game topped_out_after) \<and>
   timeouts (glib topped_out_after) = [(2, 250)]"
proof -
  have "timeouts (glib topped_out) = [(1, 500)]"
    by (simp add: topped_out_def)
  moreover have "g_source_remove 1 (glib topped_out_after) = glib topped_out_after"
    by (simp add: g_source_remove_def topped_out_after_def)
  ultimately have "timeout_dispatch 1 2 topped_out = Inr topped_out_after"
    by (simp add: timeout_dispatch_def topped_out_tick)
  then show ?thesis
    by (simp add: topped_out_tick) (simp add: topped_out_after_def)
qed

end
